theory Spec2Isabelle
  imports Complex_Main
begin

section \<open>Python helpers used by \<open>stronglyRegularGraphs.py\<close>\<close>

text \<open>
  \<open>range(n)\<close> for a Python integer \<open>n\<close>: the numbers \<open>0, ..., n - 1\<close>, empty when
  \<open>n \<le> 0\<close>. Vertices are natural numbers; the parameters \<open>n\<close>, \<open>k\<close>, \<open>lmd\<close>, \<open>mu\<close> are
  Python integers (\<open>int\<close>), since \<open>main\<close> passes whatever \<open>int(sys.argv[i])\<close> gives.
\<close>

definition range_py :: "int \<Rightarrow> nat list" where
  "range_py n = [0..<nat n]"

text \<open>\<open>itertools.combinations(xs, 2)\<close>: the pairs of positions \<open>i < j\<close>, in lexicographic order.\<close>

fun combinations2 :: "'a list \<Rightarrow> ('a \<times> 'a) list" where
  "combinations2 [] = []"
| "combinations2 (a # as) = map (Pair a) as @ combinations2 as"

text \<open>\<open>itertools.product(xs, ys, zs)\<close>.\<close>

definition product3 :: "'a list \<Rightarrow> 'b list \<Rightarrow> 'c list \<Rightarrow> ('a \<times> 'b \<times> 'c) list" where
  "product3 as bs cs = List.product as (List.product bs cs)"

text \<open>\<open>tuple(sorted([a, b]))\<close>.\<close>

definition sorted_pair :: "nat \<Rightarrow> nat \<Rightarrow> nat \<times> nat" where
  "sorted_pair a b = (if a \<le> b then (a, b) else (b, a))"

section \<open>The integer program built by \<open>find_srg\<close> (lines 15 to 65)\<close>

text \<open>
  The two dictionaries of solver variables: \<open>x[u, v]\<close> for \<open>u < v\<close> and \<open>y[w, u, v]\<close>.
  Every key the source looks up is a key that \<open>addVars\<close> created (a sorted pair of two
  different vertices of \<open>range(n)\<close>, or a triple of \<open>range(n)\<close>), so no lookup raises
  \<open>KeyError\<close>.
\<close>

datatype var = x_var "nat \<times> nat" | y_var "nat \<times> nat \<times> nat"

text \<open>A linear expression: its terms (coefficient, variable) and its constant.\<close>

type_synonym linexpr = "(real \<times> var) list \<times> real"

definition lin_const :: "real \<Rightarrow> linexpr" where
  "lin_const c = ([], c)"

definition lin_var :: "var \<Rightarrow> linexpr" where
  "lin_var v = ([(1, v)], 0)"

definition lin_add :: "linexpr \<Rightarrow> linexpr \<Rightarrow> linexpr" where
  "lin_add e f = (fst e @ fst f, snd e + snd f)"

definition lin_scale :: "real \<Rightarrow> linexpr \<Rightarrow> linexpr" where
  "lin_scale r e = (map (\<lambda>(c, v). (r * c, v)) (fst e), r * snd e)"

definition lin_sub :: "linexpr \<Rightarrow> linexpr \<Rightarrow> linexpr" where
  "lin_sub e f = lin_add e (lin_scale (- 1) f)"

definition quicksum :: "linexpr list \<Rightarrow> linexpr" where
  "quicksum es = foldr lin_add es (lin_const 0)"

datatype sense = LE | GE | EQ

datatype constr = Constr linexpr sense linexpr

text \<open>A model: its variables (all of them \<open>GRB.BINARY\<close> here) and its constraints.\<close>

record model =
  bin_vars :: "var list"
  constrs :: "constr list"

definition Model :: model where
  "Model = \<lparr>bin_vars = [], constrs = []\<rparr>"

definition addVars :: "var list \<Rightarrow> model \<Rightarrow> model" where
  "addVars vs m = m\<lparr>bin_vars := bin_vars m @ vs\<rparr>"

definition addConstrs :: "constr list \<Rightarrow> model \<Rightarrow> model" where
  "addConstrs cs m = m\<lparr>constrs := constrs m @ cs\<rparr>"

text \<open>Lines 31 to 34: the degree of every vertex is \<open>k\<close>.\<close>

definition degree_constr :: "int \<Rightarrow> int \<Rightarrow> nat \<Rightarrow> constr" where
  "degree_constr n k v =
     Constr (quicksum (map (\<lambda>u. lin_var (x_var (sorted_pair v u))) [u \<leftarrow> range_py n. u \<noteq> v]))
            EQ (lin_const (of_int k))"

definition degree_constrs :: "int \<Rightarrow> int \<Rightarrow> constr list" where
  "degree_constrs n k = map (degree_constr n k) (range_py n)"

text \<open>The triples \<open>w, u, v\<close> of lines 40 and 44.\<close>

definition distinct_triples :: "int \<Rightarrow> (nat \<times> nat \<times> nat) list" where
  "distinct_triples n =
     [(w, u, v) \<leftarrow> product3 (range_py n) (range_py n) (range_py n). w \<noteq> u \<and> w \<noteq> v \<and> u \<noteq> v]"

text \<open>Lines 38 to 41: \<open>-1 + x[w,u] + x[w,v] <= 2 * y[w,u,v]\<close>.\<close>

fun y_lower_constr :: "nat \<times> nat \<times> nat \<Rightarrow> constr" where
  "y_lower_constr (w, u, v) =
     Constr (lin_add (lin_add (lin_const (- 1)) (lin_var (x_var (sorted_pair w u))))
                     (lin_var (x_var (sorted_pair w v))))
            LE (lin_scale 2 (lin_var (y_var (w, u, v))))"

definition y_lower_constrs :: "int \<Rightarrow> constr list" where
  "y_lower_constrs n = map y_lower_constr (distinct_triples n)"

text \<open>Lines 42 to 45: \<open>2 * y[w,u,v] <= x[w,u] + x[w,v]\<close>.\<close>

fun y_upper_constr :: "nat \<times> nat \<times> nat \<Rightarrow> constr" where
  "y_upper_constr (w, u, v) =
     Constr (lin_scale 2 (lin_var (y_var (w, u, v))))
            LE (lin_add (lin_var (x_var (sorted_pair w u))) (lin_var (x_var (sorted_pair w v))))"

definition y_upper_constrs :: "int \<Rightarrow> constr list" where
  "y_upper_constrs n = map y_upper_constr (distinct_triples n)"

text \<open>The sum \<open>quicksum(y[w, u, v] for w in range(n) if w != u and w != v)\<close> of lines 49 to 63.\<close>

definition codegree_sum :: "int \<Rightarrow> nat \<Rightarrow> nat \<Rightarrow> linexpr" where
  "codegree_sum n u v =
     quicksum (map (\<lambda>w. lin_var (y_var (w, u, v))) [w \<leftarrow> range_py n. w \<noteq> u \<and> w \<noteq> v])"

text \<open>Lines 48 to 51: \<open>... <= lmd + ((1 - x[u, v]) * BigM)\<close>.\<close>

fun lambda_upper_constr :: "int \<Rightarrow> int \<Rightarrow> real \<Rightarrow> nat \<times> nat \<Rightarrow> constr" where
  "lambda_upper_constr n lmd BigM (u, v) =
     Constr (codegree_sum n u v)
            LE (lin_add (lin_const (of_int lmd))
                        (lin_scale BigM (lin_sub (lin_const 1) (lin_var (x_var (u, v))))))"

definition lambda_upper_constrs :: "int \<Rightarrow> int \<Rightarrow> real \<Rightarrow> constr list" where
  "lambda_upper_constrs n lmd BigM =
     map (lambda_upper_constr n lmd BigM) (combinations2 (range_py n))"

text \<open>Lines 52 to 55: \<open>... >= lmd - ((1 - x[u, v]) * BigM)\<close>.\<close>

fun lambda_lower_constr :: "int \<Rightarrow> int \<Rightarrow> real \<Rightarrow> nat \<times> nat \<Rightarrow> constr" where
  "lambda_lower_constr n lmd BigM (u, v) =
     Constr (codegree_sum n u v)
            GE (lin_sub (lin_const (of_int lmd))
                        (lin_scale BigM (lin_sub (lin_const 1) (lin_var (x_var (u, v))))))"

definition lambda_lower_constrs :: "int \<Rightarrow> int \<Rightarrow> real \<Rightarrow> constr list" where
  "lambda_lower_constrs n lmd BigM =
     map (lambda_lower_constr n lmd BigM) (combinations2 (range_py n))"

text \<open>Lines 58 to 61: \<open>... <= mu + (x[u, v] * BigM)\<close>.\<close>

fun mu_upper_constr :: "int \<Rightarrow> int \<Rightarrow> real \<Rightarrow> nat \<times> nat \<Rightarrow> constr" where
  "mu_upper_constr n mu BigM (u, v) =
     Constr (codegree_sum n u v)
            LE (lin_add (lin_const (of_int mu)) (lin_scale BigM (lin_var (x_var (u, v)))))"

definition mu_upper_constrs :: "int \<Rightarrow> int \<Rightarrow> real \<Rightarrow> constr list" where
  "mu_upper_constrs n mu BigM = map (mu_upper_constr n mu BigM) (combinations2 (range_py n))"

text \<open>Lines 62 to 65: \<open>... >= mu - (x[u, v] * BigM)\<close>.\<close>

fun mu_lower_constr :: "int \<Rightarrow> int \<Rightarrow> real \<Rightarrow> nat \<times> nat \<Rightarrow> constr" where
  "mu_lower_constr n mu BigM (u, v) =
     Constr (codegree_sum n u v)
            GE (lin_sub (lin_const (of_int mu)) (lin_scale BigM (lin_var (x_var (u, v)))))"

definition mu_lower_constrs :: "int \<Rightarrow> int \<Rightarrow> real \<Rightarrow> constr list" where
  "mu_lower_constrs n mu BigM = map (mu_lower_constr n mu BigM) (combinations2 (range_py n))"

text \<open>Lines 15 to 65, in the order of the source.\<close>

definition build_model :: "int \<Rightarrow> int \<Rightarrow> int \<Rightarrow> int \<Rightarrow> model" where
  "build_model n k lmd mu =
     (let m = Model;
          BigM = of_int n;
          m = addVars (map x_var (combinations2 (range_py n))) m;
          m = addVars (map y_var (product3 (range_py n) (range_py n) (range_py n))) m;
          m = addConstrs (degree_constrs n k) m;
          m = addConstrs (y_lower_constrs n) m;
          m = addConstrs (y_upper_constrs n) m;
          m = addConstrs (lambda_upper_constrs n lmd BigM) m;
          m = addConstrs (lambda_lower_constrs n lmd BigM) m;
          m = addConstrs (mu_upper_constrs n mu BigM) m;
          m = addConstrs (mu_lower_constrs n mu BigM) m
      in m)"

subsection \<open>What a solution of the model is\<close>

fun eval_lin :: "(var \<Rightarrow> real) \<Rightarrow> linexpr \<Rightarrow> real" where
  "eval_lin a (ts, c) = (\<Sum>(co, v) \<leftarrow> ts. co * a v) + c"

fun holds :: "(var \<Rightarrow> real) \<Rightarrow> constr \<Rightarrow> bool" where
  "holds a (Constr l LE r) = (eval_lin a l \<le> eval_lin a r)"
| "holds a (Constr l GE r) = (eval_lin a l \<ge> eval_lin a r)"
| "holds a (Constr l EQ r) = (eval_lin a l = eval_lin a r)"

definition binary :: "(var \<Rightarrow> real) \<Rightarrow> var \<Rightarrow> bool" where
  "binary a v = (a v = 0 \<or> a v = 1)"

definition feasible :: "model \<Rightarrow> (var \<Rightarrow> real) \<Rightarrow> bool" where
  "feasible m a = (list_all (binary a) (bin_vars m) \<and> list_all (holds a) (constrs m))"

section \<open>The exceptions that the libraries raise in \<open>find_srg\<close>\<close>

text \<open>
  The source has no \<open>raise\<close> of its own. Two library calls in it raise on integers
  that \<open>main\<close> can pass: building a constraint with a constant that no double holds
  (\<open>TypeError\<close>, lines 31 to 65), and \<open>nx.empty_graph(n)\<close> with a negative \<open>n\<close>
  (\<open>NetworkXError\<close>, line 82). Memory and running time are not modelled.
\<close>

datatype py_error = TypeError | NetworkXError

text \<open>
  gurobipy keeps the constants of a constraint as doubles. A Python integer converts to
  the nearest double, ties to even; from \<open>2 ^ 1024 - 2 ^ 970\<close> on the result would
  not be finite, and the conversion fails.
\<close>

definition fits_double :: "int \<Rightarrow> bool" where
  "fits_double i = (\<bar>i\<bar> < 2 ^ 1024 - 2 ^ 970)"

text \<open>
  Whether building the model raises: line 32 converts \<open>k\<close> once for every vertex, lines 49
  to 63 convert \<open>lmd\<close> and \<open>mu\<close> once for every pair of vertices. With no vertex, or no
  pair, the generator yields nothing and nothing is converted. (\<open>BigM = n\<close> is converted
  for every pair too; a run with that many vertices does not get as far.)
\<close>

definition model_raises :: "int \<Rightarrow> int \<Rightarrow> int \<Rightarrow> int \<Rightarrow> bool" where
  "model_raises n k lmd mu =
     ((range_py n \<noteq> [] \<and> \<not> fits_double k) \<or>
      (combinations2 (range_py n) \<noteq> [] \<and> (\<not> fits_double lmd \<or> \<not> fits_double mu)))"

section \<open>The part of networkx that \<open>find_srg\<close> uses\<close>

text \<open>
  An undirected graph as networkx keeps it: the nodes in insertion order and, for each
  node, its neighbours (a dictionary, so a neighbour is stored once).
\<close>

record graph =
  nodes :: "nat list"
  adj :: "nat \<Rightarrow> nat list"

text \<open>The graph on the nodes \<open>range(n)\<close> with no edge.\<close>

definition no_edges :: "int \<Rightarrow> graph" where
  "no_edges n = \<lparr>nodes = range_py n, adj = (\<lambda>_. [])\<rparr>"

text \<open>\<open>nx.empty_graph(n)\<close>: a negative number of nodes raises \<open>NetworkXError\<close>.\<close>

definition empty_graph :: "int \<Rightarrow> py_error + graph" where
  "empty_graph n = (if n < 0 then Inl NetworkXError else Inr (no_edges n))"

definition add_node :: "nat \<Rightarrow> graph \<Rightarrow> graph" where
  "add_node u g = (if u \<in> set (nodes g) then g else g\<lparr>nodes := nodes g @ [u]\<rparr>)"

definition add_edge :: "nat \<times> nat \<Rightarrow> graph \<Rightarrow> graph" where
  "add_edge e g =
     (let u = fst e; v = snd e;
          g = add_node u g;
          g = add_node v g;
          g = g\<lparr>adj := (adj g)(u := List.insert v (adj g u))\<rparr>;
          g = g\<lparr>adj := (adj g)(v := List.insert u (adj g v))\<rparr>
      in g)"

definition add_edges_from :: "graph \<Rightarrow> (nat \<times> nat) list \<Rightarrow> graph" where
  "add_edges_from g es = fold add_edge es g"

text \<open>\<open>G.degree(v)\<close>: the number of neighbours, a self-loop counted twice.\<close>

definition degree :: "graph \<Rightarrow> nat \<Rightarrow> nat" where
  "degree g v = length (adj g v) + (if v \<in> set (adj g v) then 1 else 0)"

definition to_numpy_matrix :: "graph \<Rightarrow> real list list" where
  "to_numpy_matrix g = map (\<lambda>u. map (\<lambda>v. if v \<in> set (adj g u) then 1 else 0) (nodes g)) (nodes g)"

section \<open>\<open>find_srg\<close>\<close>

text \<open>
  What \<open>m.optimize()\<close> leaves behind and the source reads: the attribute \<open>Status\<close> of
  the model and the attribute \<open>X\<close> of every variable. The solver is an external library;
  it is a parameter of the embedding. The values are Python floats; the source only
  compares them with \<open>0.5\<close>, which is exact, so they are reals here.
\<close>

record solver_outcome =
  Status :: int
  X :: "var \<Rightarrow> real"

text \<open>Line 78.\<close>

definition extract_edges :: "int \<Rightarrow> (var \<Rightarrow> real) \<Rightarrow> (nat \<times> nat) list" where
  "extract_edges n xs = [e \<leftarrow> combinations2 (range_py n). xs (x_var e) > 0.5]"

text \<open>The list whose length line 96 takes.\<close>

definition common_neighbors :: "int \<Rightarrow> (var \<Rightarrow> real) \<Rightarrow> nat \<Rightarrow> nat \<Rightarrow> nat list" where
  "common_neighbors n xs u v =
     [w \<leftarrow> range_py n. w \<noteq> u \<and> w \<noteq> v \<and> xs (x_var (sorted_pair w u)) > 0.5
                       \<and> xs (x_var (sorted_pair w v)) > 0.5]"

text \<open>
  Lines 80 to 96: the verification pass. It yields \<open>correct\<close> and the graph \<open>G\<close>, or the
  error that line 82 raises.
\<close>

definition verify ::
  "int \<Rightarrow> int \<Rightarrow> int \<Rightarrow> int \<Rightarrow> (var \<Rightarrow> real) \<Rightarrow> (nat \<times> nat) list \<Rightarrow> py_error + bool \<times> graph" where
  "verify n k lmd mu xs E =
     (let correct = True
      in case empty_graph n of
           Inl err \<Rightarrow> Inl err
         | Inr G \<Rightarrow>
             (let G = add_edges_from G E;
                  correct = fold (\<lambda>v correct. correct \<and> int (degree G v) = k) (range_py n) correct;
                  correct = fold (\<lambda>(u, v) correct.
                                    let cmp = (if xs (x_var (u, v)) > 0.5 then lmd else mu)
                                    in correct \<and> cmp = int (length (common_neighbors n xs u v)))
                                 (combinations2 (range_py n)) correct
              in Inr (correct, G)))"

text \<open>What the function prints, line by line, and what it asks of the solver.\<close>

datatype out_line =
    Start_optimizing_model
  | Finished_optimizing_in real
  | Model_has_no_solution
  | Found_solution bool "(nat \<times> nat) list"
  | Adjacency_matrix
  | Matrix "real list list"

datatype event = Print out_line | Optimize model

text \<open>The values that the body of \<open>find_srg\<close> computes, and \<open>None\<close>.\<close>

datatype py_value = PyNone | PyBool bool | PyEdges "(nat \<times> nat) list" | PyMatrix "real list list"

text \<open>A Python call ends by returning a value or by raising an exception.\<close>

datatype completion = Returns py_value | Raises py_error

record run =
  trace :: "event list"
  completion :: completion

text \<open>
  \<open>find_srg\<close>, lines 7 to 101. \<open>optimize\<close> is the solver and \<open>clock\<close> the two readings
  of \<open>time.time()\<close>. A constant that no double holds ends the call in lines 15 to 65,
  before anything is printed; a negative \<open>n\<close> ends it at line 82, when the solver's status
  is 2. Both other exits return \<open>None\<close>.
\<close>

definition find_srg ::
  "(model \<Rightarrow> solver_outcome) \<Rightarrow> real \<times> real \<Rightarrow> int \<Rightarrow> int \<Rightarrow> int \<Rightarrow> int \<Rightarrow> run" where
  "find_srg optimize clock n k lmd mu =
     (if model_raises n k lmd mu then \<lparr>trace = [], completion = Raises TypeError\<rparr>
      else
        let m = build_model n k lmd mu;
            out = [Print Start_optimizing_model];
            tstart = fst clock;
            sol = optimize m;
            out = out @ [Optimize m];
            out = out @ [Print (Finished_optimizing_in (snd clock - tstart))]
        in if Status sol \<noteq> 2
           then \<lparr>trace = out @ [Print Model_has_no_solution], completion = Returns PyNone\<rparr>
           else
             let E = extract_edges n (X sol)
             in case verify n k lmd mu (X sol) E of
                  Inl err \<Rightarrow> \<lparr>trace = out, completion = Raises err\<rparr>
                | Inr (correct, G) \<Rightarrow>
                    let out = out @ [Print (Found_solution correct E)];
                        out = out @ [Print Adjacency_matrix];
                        out = out @ [Print (Matrix (to_numpy_matrix G))]
                    in \<lparr>trace = out, completion = Returns PyNone\<rparr>)"

section \<open>Strongly regular graphs, as the specification words them\<close>

text \<open>
  An edge set is a set of pairs; two vertices are adjacent when the pair is in the set
  in either order.
\<close>

definition adjacent :: "(nat \<times> nat) set \<Rightarrow> nat \<Rightarrow> nat \<Rightarrow> bool" where
  "adjacent E u v = ((u, v) \<in> E \<or> (v, u) \<in> E)"

text \<open>
  Every vertex of \<open>[0, n)\<close> has degree \<open>k\<close>, two adjacent vertices have \<open>lmd\<close> common
  neighbours and two different vertices that are not adjacent have \<open>mu\<close>.
\<close>

definition is_srg :: "int \<Rightarrow> int \<Rightarrow> int \<Rightarrow> int \<Rightarrow> (nat \<times> nat) set \<Rightarrow> bool" where
  "is_srg n k lmd mu E =
     ((\<forall>v \<in> set (range_py n). int (card {u \<in> set (range_py n). adjacent E u v}) = k) \<and>
      (\<forall>u \<in> set (range_py n). \<forall>v \<in> set (range_py n). u \<noteq> v \<longrightarrow>
          int (card {w \<in> set (range_py n). adjacent E w u \<and> adjacent E w v})
            = (if adjacent E u v then lmd else mu)))"


section \<open>Auxiliary notions for the proofs\<close>

text \<open>The edge set that a predicate on the keys of \<open>x\<close> selects.\<close>

definition edge_set :: "int \<Rightarrow> (nat \<times> nat \<Rightarrow> bool) \<Rightarrow> (nat \<times> nat) set" where
  "edge_set n on = {e \<in> set (combinations2 (range_py n)). on e}"

text \<open>
  The strongly regular graph conditions as counts over \<open>range(n)\<close>, the way both the
  model and the verification pass compute them.
\<close>

definition srg_counts :: "int \<Rightarrow> int \<Rightarrow> int \<Rightarrow> int \<Rightarrow> (nat \<times> nat \<Rightarrow> bool) \<Rightarrow> bool" where
  "srg_counts n k lmd mu on =
     ((\<forall>v \<in> set (range_py n). int (length [u \<leftarrow> range_py n. u \<noteq> v \<and> on (sorted_pair v u)]) = k) \<and>
      (\<forall>(u, v) \<in> set (combinations2 (range_py n)).
          int (length [w \<leftarrow> range_py n. w \<noteq> u \<and> w \<noteq> v \<and> on (sorted_pair w u) \<and> on (sorted_pair w v)])
            = (if on (u, v) then lmd else mu)))"

text \<open>
  An assignment of the \<open>x\<close> variables, completed with the value of \<open>y[w, u, v]\<close> that
  lines 38 to 45 force.
\<close>

definition y_completion :: "(nat \<times> nat \<Rightarrow> real) \<Rightarrow> var \<Rightarrow> real" where
  "y_completion ax var =
     (case var of
        x_var e \<Rightarrow> ax e
      | y_var (w, u, v) \<Rightarrow> if ax (sorted_pair w u) = 1 \<and> ax (sorted_pair w v) = 1 then 1 else 0)"

text \<open>The assignment of the model's variables that an edge list determines.\<close>

definition edge_assignment :: "(nat \<times> nat) list \<Rightarrow> var \<Rightarrow> real" where
  "edge_assignment E = y_completion (\<lambda>e. if e \<in> set E then 1 else 0)"

text \<open>Whether the verification pass ran to its end with \<open>correct\<close> true.\<close>

definition accepted :: "py_error + bool \<times> graph \<Rightarrow> bool" where
  "accepted r = (case r of Inl err \<Rightarrow> False | Inr (correct, G) \<Rightarrow> correct)"

text \<open>
  The integers that a double holds exactly, whatever their sign: for these the
  constants of the model are the numbers that the solver receives.
\<close>

definition exact_double :: "int \<Rightarrow> bool" where
  "exact_double i = (\<bar>i\<bar> \<le> 2 ^ 53)"

text \<open>A solver run that ends with a given status and given values.\<close>

definition answer :: "int \<Rightarrow> (var \<Rightarrow> real) \<Rightarrow> model \<Rightarrow> solver_outcome" where
  "answer s xs m = \<lparr>Status = s, X = xs\<rparr>"

text \<open>
  Two strongly regular graphs used as concrete inputs: the pentagon, with parameters
  \<open>(5, 2, 0, 1)\<close>, and the Petersen graph, with the default parameters
  \<open>(10, 3, 0, 1)\<close> of \<open>main\<close>.
\<close>

definition pentagon :: "(nat \<times> nat) list" where
  "pentagon = [(0, 1), (0, 4), (1, 2), (2, 3), (3, 4)]"

definition petersen :: "(nat \<times> nat) list" where
  "petersen = [(0, 1), (0, 4), (0, 5), (1, 2), (1, 6), (2, 3), (2, 7), (3, 4), (3, 8), (4, 9),
               (5, 7), (5, 8), (6, 8), (6, 9), (7, 9)]"

section \<open>Lists of vertices, pairs and triples\<close>

lemma set_range_py: "set (range_py n) = {v. int v < n}"
  by (auto simp: range_py_def)

lemma distinct_range_py: "distinct (range_py n)"
  by (simp add: range_py_def)

lemma sorted_range_py: "sorted_wrt (<) (range_py n)"
  by (simp add: range_py_def)

lemma set_combinations2:
  "sorted_wrt (<) (xs :: nat list) \<Longrightarrow> set (combinations2 xs) = {(a, b). a \<in> set xs \<and> b \<in> set xs \<and> a < b}"
  by (induction xs) (auto simp: less_le_not_le)

lemma distinct_combinations2: "distinct xs \<Longrightarrow> distinct (combinations2 xs)"
proof (induction xs)
  case Nil
  then show ?case by simp
next
  case (Cons a as)
  have "set (combinations2 as) \<subseteq> set as \<times> set as" for as :: "'a list"
    by (induction as) auto
  with Cons show ?case
    by (auto simp: distinct_map inj_on_def)
qed

lemma set_combinations2_range:
  "set (combinations2 (range_py n)) = {(u, v). u < v \<and> int v < n}"
  by (auto simp: set_combinations2 sorted_range_py set_range_py)

lemma set_product3: "set (product3 as bs cs) = {(a, b, c). a \<in> set as \<and> b \<in> set bs \<and> c \<in> set cs}"
  by (auto simp: product3_def)

lemma set_distinct_triples:
  "set (distinct_triples n) =
     {(w, u, v). int w < n \<and> int u < n \<and> int v < n \<and> w \<noteq> u \<and> w \<noteq> v \<and> u \<noteq> v}"
  by (auto simp: distinct_triples_def set_product3 set_range_py)

lemma sorted_pair_in_combinations2:
  "int u < n \<Longrightarrow> int v < n \<Longrightarrow> u \<noteq> v \<Longrightarrow> sorted_pair u v \<in> set (combinations2 (range_py n))"
  by (auto simp: sorted_pair_def set_combinations2_range)

lemma sorted_pair_commute: "sorted_pair u v = sorted_pair v u"
  by (auto simp: sorted_pair_def)

lemma sorted_pair_less: "u < v \<Longrightarrow> sorted_pair u v = (u, v)"
  by (simp add: sorted_pair_def)

section \<open>Evaluation of linear expressions\<close>

lemma eval_lin_const [simp]: "eval_lin a (lin_const c) = c"
  by (simp add: lin_const_def)

lemma eval_lin_var [simp]: "eval_lin a (lin_var v) = a v"
  by (simp add: lin_var_def)

lemma eval_lin_add [simp]: "eval_lin a (lin_add e f) = eval_lin a e + eval_lin a f"
  by (cases e; cases f) (simp add: lin_add_def)

lemma eval_lin_scale [simp]: "eval_lin a (lin_scale r e) = r * eval_lin a e"
proof (cases e)
  case (Pair ts c)
  have "(\<Sum>(co, v) \<leftarrow> map (\<lambda>(c, v). (r * c, v)) ts. co * a v) = r * (\<Sum>(co, v) \<leftarrow> ts. co * a v)"
    by (induction ts) (auto simp: algebra_simps)
  with Pair show ?thesis
    by (simp add: lin_scale_def algebra_simps)
qed

lemma eval_lin_sub [simp]: "eval_lin a (lin_sub e f) = eval_lin a e - eval_lin a f"
  by (simp add: lin_sub_def)

lemma eval_quicksum [simp]: "eval_lin a (quicksum es) = (\<Sum>e \<leftarrow> es. eval_lin a e)"
  by (induction es) (simp_all add: quicksum_def)

lemma eval_codegree_sum:
  "eval_lin a (codegree_sum n u v) = (\<Sum>w \<leftarrow> [w \<leftarrow> range_py n. w \<noteq> u \<and> w \<noteq> v]. a (y_var (w, u, v)))"
  by (simp add: codegree_sum_def comp_def)

section \<open>The constraints of the model, family by family\<close>

lemma bin_vars_build_model:
  "bin_vars (build_model n k lmd mu) =
     map x_var (combinations2 (range_py n)) @ map y_var (product3 (range_py n) (range_py n) (range_py n))"
  by (simp add: build_model_def Let_def addVars_def addConstrs_def Model_def)

lemma constrs_build_model:
  "constrs (build_model n k lmd mu) =
     degree_constrs n k @ y_lower_constrs n @ y_upper_constrs n @
     lambda_upper_constrs n lmd (of_int n) @ lambda_lower_constrs n lmd (of_int n) @
     mu_upper_constrs n mu (of_int n) @ mu_lower_constrs n mu (of_int n)"
  by (simp add: build_model_def Let_def addVars_def addConstrs_def Model_def)

lemma feasible_build_model:
  "feasible (build_model n k lmd mu) a \<longleftrightarrow>
     (\<forall>e \<in> set (combinations2 (range_py n)). binary a (x_var e)) \<and>
     (\<forall>t \<in> set (product3 (range_py n) (range_py n) (range_py n)). binary a (y_var t)) \<and>
     (\<forall>v \<in> set (range_py n). holds a (degree_constr n k v)) \<and>
     (\<forall>t \<in> set (distinct_triples n). holds a (y_lower_constr t) \<and> holds a (y_upper_constr t)) \<and>
     (\<forall>e \<in> set (combinations2 (range_py n)).
        holds a (lambda_upper_constr n lmd (of_int n) e) \<and> holds a (lambda_lower_constr n lmd (of_int n) e) \<and>
        holds a (mu_upper_constr n mu (of_int n) e) \<and> holds a (mu_lower_constr n mu (of_int n) e))"
  unfolding feasible_def bin_vars_build_model constrs_build_model
  by (auto simp: list_all_iff degree_constrs_def y_lower_constrs_def y_upper_constrs_def
        lambda_upper_constrs_def lambda_lower_constrs_def mu_upper_constrs_def mu_lower_constrs_def)

section \<open>Edge sets and counts\<close>

lemma adjacent_edge_set:
  "adjacent (edge_set n on) u v \<longleftrightarrow> u \<noteq> v \<and> int u < n \<and> int v < n \<and> on (sorted_pair u v)"
  by (auto simp: adjacent_def edge_set_def set_combinations2_range sorted_pair_def)

lemma card_filter_range: "card {u \<in> set (range_py n). P u} = length [u \<leftarrow> range_py n. P u]"
proof -
  have "{u \<in> set (range_py n). P u} = set [u \<leftarrow> range_py n. P u]" by auto
  then show ?thesis
    by (simp add: distinct_card distinct_range_py del: set_filter)
qed

lemma degree_edge_set:
  assumes "int v < n"
  shows "card {u \<in> set (range_py n). adjacent (edge_set n on) u v}
           = length [u \<leftarrow> range_py n. u \<noteq> v \<and> on (sorted_pair v u)]"
proof -
  have "[u \<leftarrow> range_py n. adjacent (edge_set n on) u v] = [u \<leftarrow> range_py n. u \<noteq> v \<and> on (sorted_pair v u)]"
    using assms by (intro filter_cong) (auto simp: adjacent_edge_set set_range_py sorted_pair_commute)
  then show ?thesis by (simp add: card_filter_range)
qed

lemma codegree_edge_set:
  assumes "int u < n" "int v < n"
  shows "card {w \<in> set (range_py n). adjacent (edge_set n on) w u \<and> adjacent (edge_set n on) w v}
           = length [w \<leftarrow> range_py n. w \<noteq> u \<and> w \<noteq> v \<and> on (sorted_pair w u) \<and> on (sorted_pair w v)]"
proof -
  have "[w \<leftarrow> range_py n. adjacent (edge_set n on) w u \<and> adjacent (edge_set n on) w v]
          = [w \<leftarrow> range_py n. w \<noteq> u \<and> w \<noteq> v \<and> on (sorted_pair w u) \<and> on (sorted_pair w v)]"
    using assms by (intro filter_cong) (auto simp: adjacent_edge_set set_range_py)
  then show ?thesis by (simp add: card_filter_range)
qed


lemma codegree_filter_commute:
  "[w \<leftarrow> xs. w \<noteq> v \<and> w \<noteq> u \<and> on (sorted_pair w v) \<and> on (sorted_pair w u)]
     = [w \<leftarrow> xs. w \<noteq> u \<and> w \<noteq> v \<and> on (sorted_pair w u) \<and> on (sorted_pair w v)]"
  by (intro filter_cong) auto

lemma is_srg_edge_set: "is_srg n k lmd mu (edge_set n on) \<longleftrightarrow> srg_counts n k lmd mu on"
proof
  assume srg: "is_srg n k lmd mu (edge_set n on)"
  show "srg_counts n k lmd mu on"
    unfolding srg_counts_def
  proof (intro conjI ballI)
    fix v assume v: "v \<in> set (range_py n)"
    with srg have "int (card {u \<in> set (range_py n). adjacent (edge_set n on) u v}) = k"
      unfolding is_srg_def by blast
    moreover from v have "int v < n" by (simp add: set_range_py)
    ultimately show "int (length [u \<leftarrow> range_py n. u \<noteq> v \<and> on (sorted_pair v u)]) = k"
      by (simp only: degree_edge_set)
  next
    fix e assume e: "e \<in> set (combinations2 (range_py n))"
    obtain u v where uv: "e = (u, v)" by (cases e)
    from e uv have lt: "u < v" "int v < n" "int u < n"
      by (auto simp: set_combinations2_range)
    then have "u \<in> set (range_py n)" "v \<in> set (range_py n)" "u \<noteq> v"
      by (simp_all add: set_range_py)
    with srg have "int (card {w \<in> set (range_py n). adjacent (edge_set n on) w u \<and> adjacent (edge_set n on) w v})
                 = (if adjacent (edge_set n on) u v then lmd else mu)"
      unfolding is_srg_def by blast
    then have "int (length [w \<leftarrow> range_py n. w \<noteq> u \<and> w \<noteq> v \<and> on (sorted_pair w u) \<and> on (sorted_pair w v)])
                 = (if adjacent (edge_set n on) u v then lmd else mu)"
      using lt by (simp only: codegree_edge_set)
    with lt have "int (length [w \<leftarrow> range_py n. w \<noteq> u \<and> w \<noteq> v \<and> on (sorted_pair w u) \<and> on (sorted_pair w v)])
                 = (if on (u, v) then lmd else mu)"
      by (simp add: adjacent_edge_set sorted_pair_less)
    with uv show "case e of (u, v) \<Rightarrow>
            int (length [w \<leftarrow> range_py n. w \<noteq> u \<and> w \<noteq> v \<and> on (sorted_pair w u) \<and> on (sorted_pair w v)])
              = (if on (u, v) then lmd else mu)"
      by simp
  qed
next
  assume cnt: "srg_counts n k lmd mu on"
  have co: "int (length [w \<leftarrow> range_py n. w \<noteq> u \<and> w \<noteq> v \<and> on (sorted_pair w u) \<and> on (sorted_pair w v)])
              = (if on (sorted_pair u v) then lmd else mu)"
    if "int u < n" "int v < n" "u < v" for u v
  proof -
    from that have "(u, v) \<in> set (combinations2 (range_py n))"
      by (simp add: set_combinations2_range)
    with cnt that show ?thesis
      by (auto simp: srg_counts_def sorted_pair_less)
  qed
  show "is_srg n k lmd mu (edge_set n on)"
    unfolding is_srg_def
  proof (intro conjI ballI impI)
    fix v assume v: "v \<in> set (range_py n)"
    with cnt have "int (length [u \<leftarrow> range_py n. u \<noteq> v \<and> on (sorted_pair v u)]) = k"
      unfolding srg_counts_def by blast
    moreover from v have "int v < n" by (simp add: set_range_py)
    ultimately show "int (card {u \<in> set (range_py n). adjacent (edge_set n on) u v}) = k"
      by (simp only: degree_edge_set)
  next
    fix u v assume uv: "u \<in> set (range_py n)" "v \<in> set (range_py n)" "u \<noteq> v"
    then have lt: "int u < n" "int v < n" by (simp_all add: set_range_py)
    show "int (card {w \<in> set (range_py n). adjacent (edge_set n on) w u \<and> adjacent (edge_set n on) w v})
            = (if adjacent (edge_set n on) u v then lmd else mu)"
    proof (cases "u < v")
      case True
      with lt uv co [of u v] show ?thesis
        unfolding codegree_edge_set [OF lt] by (simp add: adjacent_edge_set)
    next
      case False
      with uv have "v < u" by simp
      with lt uv co [of v u] show ?thesis
        unfolding codegree_edge_set [OF lt]
        by (simp add: adjacent_edge_set codegree_filter_commute [of v u] sorted_pair_commute [of u v])
    qed
  qed
qed

section \<open>The graph built by the verification pass\<close>

lemma adj_add_node: "adj (add_node u g) = adj g"
  by (simp add: add_node_def)

lemma set_adj_add_edge:
  "set (adj (add_edge (a, b) g) w) = set (adj g w) \<union> {u. (w = a \<and> u = b) \<or> (w = b \<and> u = a)}"
  by (auto simp: add_edge_def Let_def adj_add_node)

lemma distinct_adj_add_edge: "distinct (adj g w) \<Longrightarrow> distinct (adj (add_edge e g) w)"
  by (auto simp: add_edge_def Let_def adj_add_node)

lemma set_adj_fold:
  "set (adj (fold add_edge es g) w) = set (adj g w) \<union> {u. (w, u) \<in> set es \<or> (u, w) \<in> set es}"
proof (induction es arbitrary: g)
  case Nil
  then show ?case by simp
next
  case (Cons e es)
  obtain a b where e: "e = (a, b)" by (cases e)
  show ?case
    by (auto simp: Cons.IH e set_adj_add_edge)
qed

lemma distinct_adj_fold: "distinct (adj g w) \<Longrightarrow> distinct (adj (fold add_edge es g) w)"
  by (induction es arbitrary: g) (simp_all add: distinct_adj_add_edge)

lemma degree_add_edges_from:
  assumes "\<forall>(a, b) \<in> set es. a \<noteq> b"
  shows "degree (add_edges_from (no_edges n) es) v = card {u. adjacent (set es) u v}"
proof -
  let ?g = "add_edges_from (no_edges n) es"
  have s: "set (adj ?g v) = {u. adjacent (set es) u v}"
    by (auto simp: add_edges_from_def set_adj_fold no_edges_def adjacent_def)
  have d: "distinct (adj ?g v)"
    unfolding add_edges_from_def by (rule distinct_adj_fold) (simp add: no_edges_def)
  have "v \<notin> set (adj ?g v)"
    using assms unfolding s by (auto simp: adjacent_def)
  then have "degree ?g v = length (adj ?g v)"
    by (simp add: degree_def)
  also have "\<dots> = card (set (adj ?g v))"
    using d by (simp add: distinct_card)
  finally show ?thesis by (simp only: s)
qed

lemma set_extract_edges: "set (extract_edges n xs) = edge_set n (\<lambda>e. xs (x_var e) > 0.5)"
  by (auto simp: extract_edges_def edge_set_def)

lemma adjacent_in_range:
  "{u. adjacent (edge_set n on) u v} = {u \<in> set (range_py n). adjacent (edge_set n on) u v}"
  by (auto simp: adjacent_edge_set set_range_py)

lemma degree_extract_edges:
  assumes "int v < n"
  shows "degree (add_edges_from (no_edges n) (extract_edges n xs)) v
           = length [u \<leftarrow> range_py n. u \<noteq> v \<and> xs (x_var (sorted_pair v u)) > 0.5]"
proof -
  have "\<forall>(a, b) \<in> set (extract_edges n xs). a \<noteq> b"
    by (auto simp: extract_edges_def set_combinations2_range)
  then have "degree (add_edges_from (no_edges n) (extract_edges n xs)) v
               = card {u. adjacent (set (extract_edges n xs)) u v}"
    by (rule degree_add_edges_from)
  also have "\<dots> = card {u \<in> set (range_py n). adjacent (edge_set n (\<lambda>e. xs (x_var e) > 0.5)) u v}"
    unfolding set_extract_edges using adjacent_in_range by metis
  finally show ?thesis
    using assms by (simp only: degree_edge_set)
qed

lemma fold_conj: "fold (\<lambda>v c. c \<and> P v) xs c = (c \<and> list_all P xs)"
  by (induction xs arbitrary: c) auto

lemma verify_negative: "n < 0 \<Longrightarrow> verify n k lmd mu xs E = Inl NetworkXError"
  by (simp add: verify_def empty_graph_def)

lemma verify_nonnegative:
  assumes "0 \<le> n"
  shows "verify n k lmd mu xs E =
           Inr (list_all (\<lambda>v. int (degree (add_edges_from (no_edges n) E) v) = k) (range_py n) \<and>
                list_all (\<lambda>(u, v). (if xs (x_var (u, v)) > 0.5 then lmd else mu)
                                      = int (length (common_neighbors n xs u v)))
                         (combinations2 (range_py n)),
                add_edges_from (no_edges n) E)"
  using assms by (simp add: verify_def empty_graph_def Let_def fold_conj case_prod_unfold)

lemma correct_verify:
  assumes "0 \<le> n"
  shows "verify n k lmd mu xs (extract_edges n xs) =
           Inr (srg_counts n k lmd mu (\<lambda>e. xs (x_var e) > 0.5),
                add_edges_from (no_edges n) (extract_edges n xs))"
proof -
  let ?G = "add_edges_from (no_edges n) (extract_edges n xs)"
  have "list_all (\<lambda>v. int (degree ?G v) = k) (range_py n) \<longleftrightarrow>
          (\<forall>v \<in> set (range_py n). int (length [u \<leftarrow> range_py n. u \<noteq> v \<and> xs (x_var (sorted_pair v u)) > 0.5]) = k)"
    by (simp add: list_all_iff set_range_py degree_extract_edges)
  then have "(list_all (\<lambda>v. int (degree ?G v) = k) (range_py n) \<and>
                list_all (\<lambda>(u, v). (if xs (x_var (u, v)) > 0.5 then lmd else mu)
                                      = int (length (common_neighbors n xs u v)))
                         (combinations2 (range_py n)))
              = srg_counts n k lmd mu (\<lambda>e. xs (x_var e) > 0.5)"
    by (auto simp: srg_counts_def list_all_iff common_neighbors_def)
  with verify_nonnegative [OF assms, of k lmd mu xs "extract_edges n xs"] show ?thesis
    by simp
qed

section \<open>Solutions of the model\<close>

lemma sum_list_binary:
  "\<forall>u \<in> set us. f u = 0 \<or> f u = (1::real) \<Longrightarrow> (\<Sum>u \<leftarrow> us. f u) = real (length [u \<leftarrow> us. f u = 1])"
  by (induction us) auto

lemma sum_list_binary_bounds:
  "\<forall>u \<in> set us. f u = 0 \<or> f u = (1::real) \<Longrightarrow> 0 \<le> (\<Sum>u \<leftarrow> us. f u) \<and> (\<Sum>u \<leftarrow> us. f u) \<le> real (length us)"
  by (induction us) auto

lemma y_link:
  assumes "binary a (x_var p)" "binary a (x_var q)" "binary a (y_var t)"
  shows "(- 1 + a (x_var p) + a (x_var q) \<le> 2 * a (y_var t) \<and> 2 * a (y_var t) \<le> a (x_var p) + a (x_var q))
           \<longleftrightarrow> a (y_var t) = (if a (x_var p) = 1 \<and> a (x_var q) = 1 then 1 else 0)"
  using assms by (auto simp: binary_def)

lemma holds_y_constrs:
  "holds a (y_lower_constr (w, u, v)) \<and> holds a (y_upper_constr (w, u, v)) \<longleftrightarrow>
     (- 1 + a (x_var (sorted_pair w u)) + a (x_var (sorted_pair w v)) \<le> 2 * a (y_var (w, u, v)) \<and>
      2 * a (y_var (w, u, v)) \<le> a (x_var (sorted_pair w u)) + a (x_var (sorted_pair w v)))"
  by simp

lemma holds_degree_constr:
  "holds a (degree_constr n k v) \<longleftrightarrow>
     (\<Sum>u \<leftarrow> [u \<leftarrow> range_py n. u \<noteq> v]. a (x_var (sorted_pair v u))) = of_int k"
  by (simp add: degree_constr_def comp_def)

lemma degree_sum_count:
  assumes bx: "\<forall>e \<in> set (combinations2 (range_py n)). binary a (x_var e)" and v: "int v < n"
  shows "(\<Sum>u \<leftarrow> [u \<leftarrow> range_py n. u \<noteq> v]. a (x_var (sorted_pair v u)))
           = real (length [u \<leftarrow> range_py n. u \<noteq> v \<and> a (x_var (sorted_pair v u)) = 1])"
proof -
  have "\<forall>u \<in> set [u \<leftarrow> range_py n. u \<noteq> v]. a (x_var (sorted_pair v u)) = 0 \<or> a (x_var (sorted_pair v u)) = 1"
    using bx v sorted_pair_in_combinations2 [of v n]
    by (auto simp: set_range_py binary_def)
  then show ?thesis
    by (simp add: sum_list_binary conj_commute)
qed

text \<open>The value that the linking constraints force on \<open>y[w, u, v]\<close>.\<close>

lemma y_value:
  assumes bx: "\<forall>e \<in> set (combinations2 (range_py n)). binary a (x_var e)"
    and biny: "\<forall>t \<in> set (product3 (range_py n) (range_py n) (range_py n)). binary a (y_var t)"
    and link: "\<forall>t \<in> set (distinct_triples n). holds a (y_lower_constr t) \<and> holds a (y_upper_constr t)"
    and t: "int w < n" "int u < n" "int v < n" "w \<noteq> u" "w \<noteq> v" "u \<noteq> v"
  shows "a (y_var (w, u, v)) =
           (if a (x_var (sorted_pair w u)) = 1 \<and> a (x_var (sorted_pair w v)) = 1 then 1 else 0)"
proof -
  from t have "(w, u, v) \<in> set (distinct_triples n)"
    by (simp add: set_distinct_triples)
  with link have "holds a (y_lower_constr (w, u, v)) \<and> holds a (y_upper_constr (w, u, v))"
    by blast
  then have *: "- 1 + a (x_var (sorted_pair w u)) + a (x_var (sorted_pair w v)) \<le> 2 * a (y_var (w, u, v)) \<and>
      2 * a (y_var (w, u, v)) \<le> a (x_var (sorted_pair w u)) + a (x_var (sorted_pair w v))"
    by (simp only: holds_y_constrs)
  have "binary a (x_var (sorted_pair w u))" "binary a (x_var (sorted_pair w v))"
    using bx t by (simp_all add: sorted_pair_in_combinations2)
  moreover have "binary a (y_var (w, u, v))"
    using biny t by (simp add: set_product3 set_range_py)
  ultimately show ?thesis
    using * by (simp only: y_link)
qed

lemma codegree_sum_count:
  assumes bx: "\<forall>e \<in> set (combinations2 (range_py n)). binary a (x_var e)"
    and biny: "\<forall>t \<in> set (product3 (range_py n) (range_py n) (range_py n)). binary a (y_var t)"
    and link: "\<forall>t \<in> set (distinct_triples n). holds a (y_lower_constr t) \<and> holds a (y_upper_constr t)"
    and uv: "int u < n" "int v < n" "u \<noteq> v"
  shows "eval_lin a (codegree_sum n u v) =
           real (length [w \<leftarrow> range_py n. w \<noteq> u \<and> w \<noteq> v \<and> a (x_var (sorted_pair w u)) = 1
                                             \<and> a (x_var (sorted_pair w v)) = 1])"
proof -
  let ?ws = "[w \<leftarrow> range_py n. w \<noteq> u \<and> w \<noteq> v]"
  let ?f = "\<lambda>w. if a (x_var (sorted_pair w u)) = 1 \<and> a (x_var (sorted_pair w v)) = 1 then 1 else (0::real)"
  have "(\<Sum>w \<leftarrow> ?ws. a (y_var (w, u, v))) = (\<Sum>w \<leftarrow> ?ws. ?f w)"
  proof (rule arg_cong [where f = sum_list], rule map_cong [OF refl])
    fix w assume "w \<in> set ?ws"
    then have "int w < n" "w \<noteq> u" "w \<noteq> v" by (simp_all add: set_range_py)
    with uv show "a (y_var (w, u, v)) = ?f w"
      by (intro y_value [OF bx biny link])
  qed
  also have "\<dots> = real (length [w \<leftarrow> ?ws. ?f w = 1])"
    by (rule sum_list_binary) simp
  also have "[w \<leftarrow> ?ws. ?f w = 1] = [w \<leftarrow> range_py n. w \<noteq> u \<and> w \<noteq> v \<and> a (x_var (sorted_pair w u)) = 1
                                             \<and> a (x_var (sorted_pair w v)) = 1]"
    by (auto intro: filter_cong)
  finally show ?thesis
    by (simp only: eval_codegree_sum)
qed

lemma y_completion_x [simp]: "y_completion ax (x_var e) = ax e"
  by (simp add: y_completion_def)

lemma y_completion_y [simp]:
  "y_completion ax (y_var (w, u, v)) = (if ax (sorted_pair w u) = 1 \<and> ax (sorted_pair w v) = 1 then 1 else 0)"
  by (simp add: y_completion_def)

lemma holds_codegree_constrs:
  "holds a (lambda_upper_constr n lmd M (u, v)) \<longleftrightarrow>
     eval_lin a (codegree_sum n u v) \<le> of_int lmd + M * (1 - a (x_var (u, v)))"
  "holds a (lambda_lower_constr n lmd M (u, v)) \<longleftrightarrow>
     eval_lin a (codegree_sum n u v) \<ge> of_int lmd - M * (1 - a (x_var (u, v)))"
  "holds a (mu_upper_constr n mu M (u, v)) \<longleftrightarrow>
     eval_lin a (codegree_sum n u v) \<le> of_int mu + M * a (x_var (u, v))"
  "holds a (mu_lower_constr n mu M (u, v)) \<longleftrightarrow>
     eval_lin a (codegree_sum n u v) \<ge> of_int mu - M * a (x_var (u, v))"
  by simp_all

lemma feasible_imp_srg_counts:
  assumes "feasible (build_model n k lmd mu) a"
  shows "srg_counts n k lmd mu (\<lambda>e. a (x_var e) = 1)"
proof -
  from assms have bx: "\<forall>e \<in> set (combinations2 (range_py n)). binary a (x_var e)"
    and biny: "\<forall>t \<in> set (product3 (range_py n) (range_py n) (range_py n)). binary a (y_var t)"
    and deg: "\<forall>v \<in> set (range_py n). holds a (degree_constr n k v)"
    and link: "\<forall>t \<in> set (distinct_triples n). holds a (y_lower_constr t) \<and> holds a (y_upper_constr t)"
    and cod: "\<forall>e \<in> set (combinations2 (range_py n)).
        holds a (lambda_upper_constr n lmd (of_int n) e) \<and> holds a (lambda_lower_constr n lmd (of_int n) e) \<and>
        holds a (mu_upper_constr n mu (of_int n) e) \<and> holds a (mu_lower_constr n mu (of_int n) e)"
    unfolding feasible_build_model by blast+
  show ?thesis
    unfolding srg_counts_def
  proof (intro conjI ballI)
    fix v assume v: "v \<in> set (range_py n)"
    then have lt: "int v < n" by (simp add: set_range_py)
    from deg v have "(\<Sum>u \<leftarrow> [u \<leftarrow> range_py n. u \<noteq> v]. a (x_var (sorted_pair v u))) = of_int k"
      by (simp only: holds_degree_constr)
    then have "real (length [u \<leftarrow> range_py n. u \<noteq> v \<and> a (x_var (sorted_pair v u)) = 1]) = of_int k"
      by (simp only: degree_sum_count [OF bx lt])
    then show "int (length [u \<leftarrow> range_py n. u \<noteq> v \<and> a (x_var (sorted_pair v u)) = 1]) = k"
      by linarith
  next
    fix e assume e: "e \<in> set (combinations2 (range_py n))"
    obtain u v where uv: "e = (u, v)" by (cases e)
    from e uv have lt: "int u < n" "int v < n" "u \<noteq> v"
      by (auto simp: set_combinations2_range)
    let ?c = "length [w \<leftarrow> range_py n. w \<noteq> u \<and> w \<noteq> v \<and> a (x_var (sorted_pair w u)) = 1
                                             \<and> a (x_var (sorted_pair w v)) = 1]"
    have S: "eval_lin a (codegree_sum n u v) = real ?c"
      by (rule codegree_sum_count [OF bx biny link lt])
    from cod e uv have
      "holds a (lambda_upper_constr n lmd (of_int n) (u, v))"
      "holds a (lambda_lower_constr n lmd (of_int n) (u, v))"
      "holds a (mu_upper_constr n mu (of_int n) (u, v))"
      "holds a (mu_lower_constr n mu (of_int n) (u, v))"
      by blast+
    then have
      "real ?c \<le> of_int lmd + of_int n * (1 - a (x_var (u, v)))"
      "real ?c \<ge> of_int lmd - of_int n * (1 - a (x_var (u, v)))"
      "real ?c \<le> of_int mu + of_int n * a (x_var (u, v))"
      "real ?c \<ge> of_int mu - of_int n * a (x_var (u, v))"
      by (simp_all only: holds_codegree_constrs S)
    moreover from bx e uv have "a (x_var (u, v)) = 0 \<or> a (x_var (u, v)) = 1"
      by (auto simp: binary_def)
    ultimately have "int ?c = (if a (x_var (u, v)) = 1 then lmd else mu)"
      by (auto split: if_splits)
    with uv show "case e of (u, v) \<Rightarrow>
            int (length [w \<leftarrow> range_py n. w \<noteq> u \<and> w \<noteq> v \<and> a (x_var (sorted_pair w u)) = 1
                                             \<and> a (x_var (sorted_pair w v)) = 1])
              = (if a (x_var (u, v)) = 1 then lmd else mu)"
      by simp
  qed
qed

lemma real_of_count: "int c = k \<Longrightarrow> real c = of_int k"
  by (metis of_int_of_nat_eq)

lemma srg_counts_imp_feasible:
  assumes bounds: "0 \<le> lmd" "lmd \<le> n" "0 \<le> mu" "mu \<le> n"
    and bx: "\<forall>e \<in> set (combinations2 (range_py n)). ax e = 0 \<or> ax e = 1"
    and cnt: "srg_counts n k lmd mu (\<lambda>e. ax e = 1)"
  shows "feasible (build_model n k lmd mu) (y_completion ax)"
proof -
  let ?a = "y_completion ax"
  have bx': "\<forall>e \<in> set (combinations2 (range_py n)). binary ?a (x_var e)"
    using bx by (simp add: binary_def)
  have biny: "\<forall>t \<in> set (product3 (range_py n) (range_py n) (range_py n)). binary ?a (y_var t)"
    by (auto simp: binary_def)
  have link: "\<forall>t \<in> set (distinct_triples n). holds ?a (y_lower_constr t) \<and> holds ?a (y_upper_constr t)"
  proof
    fix t assume t: "t \<in> set (distinct_triples n)"
    obtain w u v where wuv: "t = (w, u, v)" by (cases t)
    with t have "sorted_pair w u \<in> set (combinations2 (range_py n))"
      "sorted_pair w v \<in> set (combinations2 (range_py n))"
      by (simp_all add: set_distinct_triples sorted_pair_in_combinations2)
    with bx have "ax (sorted_pair w u) = 0 \<or> ax (sorted_pair w u) = 1"
      "ax (sorted_pair w v) = 0 \<or> ax (sorted_pair w v) = 1"
      by blast+
    then show "holds ?a (y_lower_constr t) \<and> holds ?a (y_upper_constr t)"
      unfolding wuv by auto
  qed
  have deg: "\<forall>v \<in> set (range_py n). holds ?a (degree_constr n k v)"
  proof
    fix v assume v: "v \<in> set (range_py n)"
    then have lt: "int v < n" by (simp add: set_range_py)
    from cnt v have "int (length [u \<leftarrow> range_py n. u \<noteq> v \<and> ax (sorted_pair v u) = 1]) = k"
      unfolding srg_counts_def by blast
    then have "real (length [u \<leftarrow> range_py n. u \<noteq> v \<and> ?a (x_var (sorted_pair v u)) = 1]) = of_int k"
      by (simp add: real_of_count)
    then show "holds ?a (degree_constr n k v)"
      by (simp only: holds_degree_constr degree_sum_count [OF bx' lt])
  qed
  have cod: "\<forall>e \<in> set (combinations2 (range_py n)).
        holds ?a (lambda_upper_constr n lmd (of_int n) e) \<and> holds ?a (lambda_lower_constr n lmd (of_int n) e) \<and>
        holds ?a (mu_upper_constr n mu (of_int n) e) \<and> holds ?a (mu_lower_constr n mu (of_int n) e)"
  proof
    fix e assume e: "e \<in> set (combinations2 (range_py n))"
    obtain u v where uv: "e = (u, v)" by (cases e)
    from e uv have lt: "int u < n" "int v < n" "u \<noteq> v"
      by (auto simp: set_combinations2_range)
    let ?c = "length [w \<leftarrow> range_py n. w \<noteq> u \<and> w \<noteq> v \<and> ax (sorted_pair w u) = 1 \<and> ax (sorted_pair w v) = 1]"
    have S: "eval_lin ?a (codegree_sum n u v) = real ?c"
      using codegree_sum_count [OF bx' biny link lt] by simp
    from cnt e uv have c: "int ?c = (if ax (u, v) = 1 then lmd else mu)"
      unfolding srg_counts_def by blast
    from bx e uv have "ax (u, v) = 0 \<or> ax (u, v) = 1" by blast
    then have "real ?c \<le> of_int lmd + of_int n * (1 - ax (u, v)) \<and>
      real ?c \<ge> of_int lmd - of_int n * (1 - ax (u, v)) \<and>
      real ?c \<le> of_int mu + of_int n * ax (u, v) \<and>
      real ?c \<ge> of_int mu - of_int n * ax (u, v)"
    proof
      assume z: "ax (u, v) = 0"
      with c have "int ?c = mu" by simp
      then have "real ?c = of_int mu" by (rule real_of_count)
      moreover have "real_of_int mu \<le> of_int lmd + of_int n" "real_of_int lmd - of_int n \<le> of_int mu"
        using bounds by linarith+
      ultimately show ?thesis using z by simp
    next
      assume o: "ax (u, v) = 1"
      with c have "int ?c = lmd" by simp
      then have "real ?c = of_int lmd" by (rule real_of_count)
      moreover have "real_of_int lmd \<le> of_int mu + of_int n" "real_of_int mu - of_int n \<le> of_int lmd"
        using bounds by linarith+
      ultimately show ?thesis using o by simp
    qed
    then show "holds ?a (lambda_upper_constr n lmd (of_int n) e) \<and> holds ?a (lambda_lower_constr n lmd (of_int n) e) \<and>
        holds ?a (mu_upper_constr n mu (of_int n) e) \<and> holds ?a (mu_lower_constr n mu (of_int n) e)"
      unfolding uv holds_codegree_constrs S by simp
  qed
  show ?thesis
    unfolding feasible_build_model using bx' biny deg link cod by blast
qed

section \<open>The two exits of \<open>find_srg\<close> and the verification pass\<close>

lemma exact_double_fits: "exact_double i \<Longrightarrow> fits_double i"
  by (simp add: exact_double_def fits_double_def)

lemma exact_not_raises:
  "exact_double k \<Longrightarrow> exact_double lmd \<Longrightarrow> exact_double mu \<Longrightarrow> \<not> model_raises n k lmd mu"
  by (simp add: model_raises_def exact_double_fits)

lemma negative_not_raises: "n \<le> 0 \<Longrightarrow> \<not> model_raises n k lmd mu"
  by (simp add: model_raises_def range_py_def)

lemma find_srg_TypeError:
  "model_raises n k lmd mu \<Longrightarrow>
     find_srg optimize clock n k lmd mu = \<lparr>trace = [], completion = Raises TypeError\<rparr>"
  by (simp add: find_srg_def)

lemma find_srg_not_optimal:
  assumes "\<not> model_raises n k lmd mu" and "Status (optimize (build_model n k lmd mu)) \<noteq> 2"
  shows "find_srg optimize clock n k lmd mu =
           \<lparr>trace = [Print Start_optimizing_model, Optimize (build_model n k lmd mu),
                     Print (Finished_optimizing_in (snd clock - fst clock)),
                     Print Model_has_no_solution],
            completion = Returns PyNone\<rparr>"
  using assms by (simp add: find_srg_def Let_def)

lemma find_srg_NetworkXError:
  assumes "n < 0" and "Status (optimize (build_model n k lmd mu)) = 2"
  shows "find_srg optimize clock n k lmd mu =
           \<lparr>trace = [Print Start_optimizing_model, Optimize (build_model n k lmd mu),
                     Print (Finished_optimizing_in (snd clock - fst clock))],
            completion = Raises NetworkXError\<rparr>"
  using assms negative_not_raises [of n k lmd mu]
  by (simp add: find_srg_def Let_def verify_negative)

lemma is_srg_extract_edges:
  "is_srg n k lmd mu (set (extract_edges n xs)) = srg_counts n k lmd mu (\<lambda>e. xs (x_var e) > 0.5)"
  by (simp add: set_extract_edges is_srg_edge_set)

lemma verify_extract_edges:
  assumes "0 \<le> n"
  shows "verify n k lmd mu xs (extract_edges n xs) =
           Inr (is_srg n k lmd mu (set (extract_edges n xs)),
                add_edges_from (no_edges n) (extract_edges n xs))"
  by (simp only: correct_verify [OF assms] is_srg_extract_edges)

lemma find_srg_optimal:
  assumes "\<not> model_raises n k lmd mu" and "0 \<le> n"
    and "Status (optimize (build_model n k lmd mu)) = 2"
  shows "find_srg optimize clock n k lmd mu =
           (let E = extract_edges n (X (optimize (build_model n k lmd mu)))
            in \<lparr>trace = [Print Start_optimizing_model, Optimize (build_model n k lmd mu),
                     Print (Finished_optimizing_in (snd clock - fst clock)),
                     Print (Found_solution (is_srg n k lmd mu (set E)) E),
                     Print Adjacency_matrix,
                     Print (Matrix (to_numpy_matrix (add_edges_from (no_edges n) E)))],
                completion = Returns PyNone\<rparr>)"
  using assms by (simp add: find_srg_def Let_def verify_extract_edges)

lemma accepted_verify:
  "accepted (verify n k lmd mu xs (extract_edges n xs))
     \<longleftrightarrow> 0 \<le> n \<and> is_srg n k lmd mu (set (extract_edges n xs))"
proof (cases "0 \<le> n")
  case True
  then show ?thesis
    by (simp add: verify_extract_edges accepted_def)
next
  case False
  then show ?thesis
    by (simp add: verify_negative accepted_def)
qed

lemma is_srg_no_vertex: "n \<le> 0 \<Longrightarrow> is_srg n k lmd mu E"
  by (simp add: is_srg_def range_py_def)

lemma edge_assignment_x: "edge_assignment E (x_var e) = (if e \<in> set E then 1 else 0)"
  by (simp add: edge_assignment_def)

lemma extract_edges_edge_assignment:
  "extract_edges n (edge_assignment (extract_edges n xs)) = extract_edges n xs"
proof -
  have "extract_edges n (edge_assignment (extract_edges n xs))
          = [e \<leftarrow> combinations2 (range_py n). e \<in> set (extract_edges n xs)]"
    unfolding extract_edges_def [of n "edge_assignment (extract_edges n xs)"]
    by (intro filter_cong) (auto simp: edge_assignment_x)
  also have "\<dots> = extract_edges n xs"
    unfolding extract_edges_def by (intro filter_cong) auto
  finally show ?thesis .
qed

text \<open>The verification pass reads the solver's values only through the edge list.\<close>

lemma verify_cong:
  assumes "extract_edges n xs' = extract_edges n xs"
  shows "verify n k lmd mu xs' (extract_edges n xs) = verify n k lmd mu xs (extract_edges n xs)"
proof -
  have on: "xs' (x_var e) > 0.5 \<longleftrightarrow> xs (x_var e) > 0.5" if "e \<in> set (combinations2 (range_py n))" for e
  proof -
    have "e \<in> set (extract_edges n xs') \<longleftrightarrow> e \<in> set (extract_edges n xs)"
      by (simp only: assms)
    with that show ?thesis by (simp add: extract_edges_def)
  qed
  have cn: "common_neighbors n xs' u v = common_neighbors n xs u v"
    if "(u, v) \<in> set (combinations2 (range_py n))" for u v
    unfolding common_neighbors_def
  proof (rule filter_cong [OF refl])
    fix w assume "w \<in> set (range_py n)"
    with that have lt: "int w < n" "int u < n" "int v < n"
      by (auto simp: set_combinations2_range set_range_py)
    then have "w \<noteq> u \<Longrightarrow> sorted_pair w u \<in> set (combinations2 (range_py n))"
      "w \<noteq> v \<Longrightarrow> sorted_pair w v \<in> set (combinations2 (range_py n))"
      using sorted_pair_in_combinations2 [of w n u] sorted_pair_in_combinations2 [of w n v]
      by blast+
    then show "(w \<noteq> u \<and> w \<noteq> v \<and> xs' (x_var (sorted_pair w u)) > 0.5 \<and> xs' (x_var (sorted_pair w v)) > 0.5)
           = (w \<noteq> u \<and> w \<noteq> v \<and> xs (x_var (sorted_pair w u)) > 0.5 \<and> xs (x_var (sorted_pair w v)) > 0.5)"
      using on by blast
  qed
  have "list_all (\<lambda>(u, v). (if xs' (x_var (u, v)) > 0.5 then lmd else mu)
                                = int (length (common_neighbors n xs' u v)))
                   (combinations2 (range_py n))
      = list_all (\<lambda>(u, v). (if xs (x_var (u, v)) > 0.5 then lmd else mu)
                                = int (length (common_neighbors n xs u v)))
                   (combinations2 (range_py n))"
    unfolding list_all_iff using on cn by (intro ball_cong refl) auto
  then show ?thesis
    by (simp add: verify_def Let_def fold_conj case_prod_unfold split: sum.splits)
qed

lemma verify_edge_assignment:
  "verify n k lmd mu (edge_assignment (extract_edges n xs)) (extract_edges n xs)
     = verify n k lmd mu xs (extract_edges n xs)"
  by (rule verify_cong) (rule extract_edges_edge_assignment)

lemma srg_counts_cong:
  assumes "\<forall>e \<in> set (combinations2 (range_py n)). on e = on' e"
  shows "srg_counts n k lmd mu on = srg_counts n k lmd mu on'"
proof -
  from assms have "edge_set n on = edge_set n on'"
    by (auto simp: edge_set_def)
  then show ?thesis
    by (simp only: is_srg_edge_set [symmetric])
qed

lemma feasible_imp_is_srg:
  assumes "feasible (build_model n k lmd mu) xs"
  shows "is_srg n k lmd mu (set (extract_edges n xs))"
proof -
  have "\<forall>e \<in> set (combinations2 (range_py n)). (xs (x_var e) = 1) = (xs (x_var e) > 0.5)"
    using assms by (auto simp: feasible_build_model binary_def)
  then have "srg_counts n k lmd mu (\<lambda>e. xs (x_var e) = 1) = srg_counts n k lmd mu (\<lambda>e. xs (x_var e) > 0.5)"
    by (rule srg_counts_cong)
  with feasible_imp_srg_counts [OF assms] show ?thesis
    by (simp only: set_extract_edges is_srg_edge_set)
qed

lemma codegree_sum_bounds:
  assumes biny: "\<forall>t \<in> set (product3 (range_py n) (range_py n) (range_py n)). binary a (y_var t)"
    and uv: "int u < n" "int v < n"
  shows "0 \<le> eval_lin a (codegree_sum n u v) \<and> eval_lin a (codegree_sum n u v) \<le> of_int n"
proof -
  let ?ws = "[w \<leftarrow> range_py n. w \<noteq> u \<and> w \<noteq> v]"
  have "\<forall>w \<in> set ?ws. a (y_var (w, u, v)) = 0 \<or> a (y_var (w, u, v)) = 1"
    using biny uv by (auto simp: set_product3 set_range_py binary_def)
  then have "0 \<le> (\<Sum>w \<leftarrow> ?ws. a (y_var (w, u, v))) \<and> (\<Sum>w \<leftarrow> ?ws. a (y_var (w, u, v))) \<le> real (length ?ws)"
    by (rule sum_list_binary_bounds)
  moreover have "length ?ws \<le> length (range_py n)"
    by (rule length_filter_le)
  then have "real (length ?ws) \<le> of_int n"
    using uv by (simp add: range_py_def)
  ultimately have "0 \<le> (\<Sum>w \<leftarrow> ?ws. a (y_var (w, u, v))) \<and> (\<Sum>w \<leftarrow> ?ws. a (y_var (w, u, v))) \<le> of_int n"
    by linarith
  then show ?thesis
    by (simp only: eval_codegree_sum)
qed

section \<open>The counting identity of strongly regular graphs\<close>

lemma card_filter_as_sum:
  "finite S \<Longrightarrow> int (card {x \<in> S. P x}) = (\<Sum>x \<in> S. if P x then 1 else 0)"
  by (simp add: sum.inter_filter [symmetric])

lemma card_insert_Un:
  "finite C \<Longrightarrow> finite D \<Longrightarrow> x \<notin> C \<union> D \<Longrightarrow> C \<inter> D = {} \<Longrightarrow>
     card (insert x (C \<union> D)) = Suc (card C + card D)"
  by (simp add: card_Un_disjoint)

lemma srg_identity_abstract:
  fixes V :: "nat set" and A :: "nat \<Rightarrow> nat \<Rightarrow> bool"
  assumes fin: "finite V" and v0: "v0 \<in> V"
    and sym: "\<And>u v. A u v \<Longrightarrow> A v u" and irr: "\<And>u. \<not> A u u"
    and deg: "\<And>v. v \<in> V \<Longrightarrow> int (card {u \<in> V. A u v}) = k"
    and cod: "\<And>u v. u \<in> V \<Longrightarrow> v \<in> V \<Longrightarrow> u \<noteq> v \<Longrightarrow>
                int (card {w \<in> V. A w u \<and> A w v}) = (if A u v then lmd else mu)"
  shows "k * (k - 1 - lmd) = (int (card V) - k - 1) * mu"
proof -
  define N where "N = {u \<in> V. A u v0}"
  define M where "M = {w \<in> V. w \<noteq> v0 \<and> \<not> A w v0}"
  have finN: "finite N" and finM: "finite M"
    using fin by (simp_all add: N_def M_def)
  have symeq: "A u v = A v u" for u v
    using sym by blast
  have cardN: "int (card N) = k"
    unfolding N_def by (rule deg [OF v0])
  have "V = insert v0 (N \<union> M)"
    using v0 by (auto simp: N_def M_def)
  moreover have "v0 \<notin> N \<union> M" "N \<inter> M = {}"
    using irr by (auto simp: N_def M_def)
  ultimately have "card V = Suc (card N + card M)"
    using card_insert_Un [OF finN finM, of v0] by simp
  with cardN have cardM: "int (card M) = int (card V) - k - 1"
    by simp
  have inN: "int (card {w \<in> M. A w u}) = k - 1 - lmd" if u: "u \<in> N" for u
  proof -
    from u have uV: "u \<in> V" and uv0: "A u v0" by (simp_all add: N_def)
    then have ne: "u \<noteq> v0" using irr by blast
    let ?C = "{w \<in> V. A w u \<and> A w v0}"
    let ?D = "{w \<in> M. A w u}"
    have split: "{w \<in> V. A w u} = insert v0 (?C \<union> ?D)"
      using v0 sym [OF uv0] by (auto simp: M_def)
    have dis: "v0 \<notin> ?C \<union> ?D" "?C \<inter> ?D = {}"
      using irr by (auto simp: M_def)
    have "finite ?C" "finite ?D"
      using fin finM by simp_all
    then have "card (insert v0 (?C \<union> ?D)) = Suc (card ?C + card ?D)"
      using dis by (rule card_insert_Un)
    then have "card {w \<in> V. A w u} = Suc (card ?C + card ?D)"
      by (simp only: split)
    moreover have "int (card {w \<in> V. A w u}) = k"
      by (rule deg [OF uV])
    moreover have "int (card ?C) = lmd"
      using cod [OF uV v0 ne] uv0 by simp
    ultimately show ?thesis by simp
  qed
  have inM: "int (card {u \<in> N. A u w}) = mu" if w: "w \<in> M" for w
  proof -
    from w have wV: "w \<in> V" and ne: "w \<noteq> v0" and nadj: "\<not> A w v0" by (simp_all add: M_def)
    have "{u \<in> N. A u w} = {x \<in> V. A x w \<and> A x v0}"
      by (auto simp: N_def)
    then show ?thesis
      using cod [OF wV v0 ne] nadj by simp
  qed
  have "(\<Sum>u \<in> N. int (card {w \<in> M. A w u})) = (\<Sum>u \<in> N. \<Sum>w \<in> M. if A w u then 1 else 0)"
    by (simp only: card_filter_as_sum [OF finM])
  also have "\<dots> = (\<Sum>w \<in> M. \<Sum>u \<in> N. if A w u then 1 else 0)"
    by (rule sum.swap)
  also have "\<dots> = (\<Sum>w \<in> M. \<Sum>u \<in> N. if A u w then 1 else 0)"
    by (intro sum.cong refl if_cong symeq)
  also have "\<dots> = (\<Sum>w \<in> M. int (card {u \<in> N. A u w}))"
    by (simp only: card_filter_as_sum [OF finN])
  finally have "(\<Sum>u \<in> N. int (card {w \<in> M. A w u})) = (\<Sum>w \<in> M. int (card {u \<in> N. A u w}))" .
  then have "(\<Sum>u \<in> N. k - 1 - lmd) = (\<Sum>w \<in> M. mu)"
    using inN inM by simp
  then have "int (card N) * (k - 1 - lmd) = int (card M) * mu"
    by simp
  then show ?thesis
    by (simp only: cardN cardM)
qed

lemma srg_identity:
  assumes srg: "is_srg n k lmd mu (edge_set n on)" and n: "1 \<le> n"
  shows "k * (k - 1 - lmd) = (n - k - 1) * mu"
proof -
  let ?A = "adjacent (edge_set n on)"
  have "k * (k - 1 - lmd) = (int (card (set (range_py n))) - k - 1) * mu"
  proof (rule srg_identity_abstract [where A = ?A and ?v0.0 = 0])
    show "finite (set (range_py n))" by simp
    show "0 \<in> set (range_py n)" using n by (simp add: set_range_py)
    show "\<And>u v. ?A u v \<Longrightarrow> ?A v u" by (auto simp: adjacent_def)
    show "\<And>u. \<not> ?A u u" by (simp add: adjacent_edge_set)
    show "\<And>v. v \<in> set (range_py n) \<Longrightarrow> int (card {u \<in> set (range_py n). ?A u v}) = k"
      using srg unfolding is_srg_def by blast
    show "\<And>u v. u \<in> set (range_py n) \<Longrightarrow> v \<in> set (range_py n) \<Longrightarrow> u \<noteq> v \<Longrightarrow>
            int (card {w \<in> set (range_py n). ?A w u \<and> ?A w v}) = (if ?A u v then lmd else mu)"
      using srg unfolding is_srg_def by blast
  qed
  moreover have "int (card (set (range_py n))) = n"
    using n by (simp add: distinct_card distinct_range_py) (simp add: range_py_def)
  ultimately show ?thesis by simp
qed

lemma feasible_identity:
  assumes "feasible (build_model n k lmd mu) a" and "1 \<le> n"
  shows "k * (k - 1 - lmd) = (n - k - 1) * mu"
  using feasible_imp_srg_counts [OF assms(1)] assms(2)
  by (simp add: is_srg_edge_set [symmetric] srg_identity)

section \<open>Concrete runs\<close>

lemma pentagon_feasible: "feasible (build_model 5 2 0 1) (edge_assignment pentagon)"
  by code_simp

lemma pentagon_edges: "extract_edges 5 (edge_assignment pentagon) = pentagon"
  by code_simp

lemma petersen_srg: "is_srg 10 3 0 1 (set petersen)"
  by code_simp

text \<open>Two runs that end in an exception.\<close>

lemma raises_at_huge_k:
  "find_srg (answer 3 (edge_assignment [])) (0, 1) 2 (2 ^ 1024) 0 0
     = \<lparr>trace = [], completion = Raises TypeError\<rparr>"
  by (simp add: find_srg_TypeError model_raises_def fits_double_def range_py_def)

lemma raises_at_negative_n:
  "find_srg (answer 2 (edge_assignment [])) (0, 1) (- 3) 0 0 0 =
     \<lparr>trace = [Print Start_optimizing_model, Optimize (build_model (- 3) 0 0 0),
               Print (Finished_optimizing_in 1)],
      completion = Raises NetworkXError\<rparr>"
  by (simp add: find_srg_NetworkXError answer_def)

section \<open>The claims\<close>

text \<open>
  Claim C1. Whenever \<open>find_srg\<close> prints \<open>Found True solution E\<close>, the list \<open>E\<close> is the
  edge list read from the solver, it is a strongly regular graph with parameters
  \<open>(n, k, lmd, mu)\<close> (every vertex of \<open>[0, n)\<close> has degree \<open>k\<close>, two adjacent vertices
  have \<open>lmd\<close> common neighbours, two different non-adjacent vertices have \<open>mu\<close>), and the
  verification pass run on \<open>E\<close> alone accepts it. Moreover, for \<open>n \<ge> 0\<close> and \<open>k\<close>, \<open>lmd\<close>,
  \<open>mu\<close> of magnitude at most \<open>2 ^ 53\<close>, whenever the solver ends with status 2 and values
  that solve the model, that line is printed.
\<close>

theorem found_graph_is_srg:
  "(Print (Found_solution True E) \<in> set (trace (find_srg optimize clock n k lmd mu)) \<longrightarrow>
      E = extract_edges n (X (optimize (build_model n k lmd mu))) \<and>
      is_srg n k lmd mu (set E) \<and>
      accepted (verify n k lmd mu (edge_assignment E) E)) \<and>
   (0 \<le> n \<and> exact_double k \<and> exact_double lmd \<and> exact_double mu \<and>
    Status (optimize (build_model n k lmd mu)) = 2 \<and>
    feasible (build_model n k lmd mu) (X (optimize (build_model n k lmd mu))) \<longrightarrow>
      Print (Found_solution True (extract_edges n (X (optimize (build_model n k lmd mu)))))
        \<in> set (trace (find_srg optimize clock n k lmd mu)))"
proof (intro conjI impI)
  let ?m = "build_model n k lmd mu"
  let ?xs = "X (optimize ?m)"
  assume found: "Print (Found_solution True E) \<in> set (trace (find_srg optimize clock n k lmd mu))"
  have nr: "\<not> model_raises n k lmd mu"
    using found by (cases "model_raises n k lmd mu") (simp_all add: find_srg_TypeError)
  have st: "Status (optimize ?m) = 2"
    using found nr by (cases "Status (optimize ?m) = 2") (simp_all add: find_srg_not_optimal)
  have n: "0 \<le> n"
    using found st by (cases "0 \<le> n") (simp_all add: find_srg_NetworkXError)
  from found show E: "E = extract_edges n ?xs"
    by (simp add: find_srg_optimal [where optimize = optimize, OF nr n st] Let_def)
  from found show srg: "is_srg n k lmd mu (set E)"
    by (auto simp: find_srg_optimal [where optimize = optimize, OF nr n st] Let_def)
  have "accepted (verify n k lmd mu ?xs (extract_edges n ?xs))"
    using srg n unfolding E by (simp only: accepted_verify)
  then show "accepted (verify n k lmd mu (edge_assignment E) E)"
    unfolding E by (simp only: verify_edge_assignment)
next
  let ?m = "build_model n k lmd mu"
  let ?xs = "X (optimize ?m)"
  assume h: "0 \<le> n \<and> exact_double k \<and> exact_double lmd \<and> exact_double mu \<and>
    Status (optimize ?m) = 2 \<and> feasible ?m ?xs"
  then have nr: "\<not> model_raises n k lmd mu"
    by (simp add: exact_not_raises)
  from h have "is_srg n k lmd mu (set (extract_edges n ?xs))"
    by (simp add: feasible_imp_is_srg)
  with h show "Print (Found_solution True (extract_edges n ?xs)) \<in> set (trace (find_srg optimize clock n k lmd mu))"
    by (simp add: find_srg_optimal [where optimize = optimize, OF nr] Let_def)
qed

text \<open>Claim C1 at the pentagon: a solver that answers with the pentagon makes the line appear.\<close>

theorem found_graph_is_srg_witness:
  "Print (Found_solution True pentagon)
     \<in> set (trace (find_srg (answer 2 (edge_assignment pentagon)) (0, 1) 5 2 0 1)) \<and>
   is_srg 5 2 0 1 (set pentagon) \<and>
   accepted (verify 5 2 0 1 (edge_assignment pentagon) pentagon)"
proof -
  have "(0::int) \<le> 5 \<and> exact_double 2 \<and> exact_double 0 \<and> exact_double 1 \<and>
        Status (answer 2 (edge_assignment pentagon) (build_model 5 2 0 1)) = 2 \<and>
        feasible (build_model 5 2 0 1) (X (answer 2 (edge_assignment pentagon) (build_model 5 2 0 1)))"
    using pentagon_feasible by (simp add: answer_def exact_double_def)
  with found_graph_is_srg [of pentagon "answer 2 (edge_assignment pentagon)" "(0, 1)" 5 2 0 1]
  have "Print (Found_solution True pentagon)
     \<in> set (trace (find_srg (answer 2 (edge_assignment pentagon)) (0, 1) 5 2 0 1))"
    by (simp add: answer_def pentagon_edges)
  with found_graph_is_srg [of pentagon "answer 2 (edge_assignment pentagon)" "(0, 1)" 5 2 0 1]
  show ?thesis by blast
qed

text \<open>
  Claim C2, a run that contradicts it. \<open>lmd = -1\<close> violates the range precondition, yet
  the model is built and solved: the empty graph on two vertices solves it, and the run
  prints \<open>Found True solution []\<close> and returns \<open>None\<close>.
\<close>

theorem negative_lambda_is_searched:
  "find_srg (answer 2 (edge_assignment [])) (0, 1) 2 0 (- 1) 0 =
     \<lparr>trace = [Print Start_optimizing_model, Optimize (build_model 2 0 (- 1) 0),
               Print (Finished_optimizing_in 1), Print (Found_solution True []),
               Print Adjacency_matrix, Print (Matrix [ [0, 0], [0, 0] ])],
      completion = Returns PyNone\<rparr> \<and>
   feasible (build_model 2 0 (- 1) 0) (edge_assignment [])"
  by code_simp

text \<open>
  Claim C2 as amended. \<open>find_srg\<close> checks no range precondition: for every \<open>n\<close> and all
  \<open>k\<close>, \<open>lmd\<close>, \<open>mu\<close> of magnitude at most \<open>2 ^ 53\<close>, in range or not, it builds the model
  and hands it to the solver right after the first line it prints. It then returns
  \<open>None\<close>, except for \<open>n < 0\<close> with a solver that ends with status 2, where line 82
  raises \<open>NetworkXError\<close> after the search.
\<close>

theorem no_parameter_validation:
  assumes "exact_double k" and "exact_double lmd" and "exact_double mu"
  shows "take 2 (trace (find_srg optimize clock n k lmd mu))
           = [Print Start_optimizing_model, Optimize (build_model n k lmd mu)] \<and>
         completion (find_srg optimize clock n k lmd mu)
           = (if n < 0 \<and> Status (optimize (build_model n k lmd mu)) = 2
              then Raises NetworkXError else Returns PyNone)"
proof -
  have nr: "\<not> model_raises n k lmd mu"
    using assms by (rule exact_not_raises)
  show ?thesis
  proof (cases "Status (optimize (build_model n k lmd mu)) = 2")
    case False
    then show ?thesis
      by (simp add: find_srg_not_optimal [where optimize = optimize, OF nr])
  next
    case True
    show ?thesis
    proof (cases "0 \<le> n")
      case True
      with \<open>Status (optimize (build_model n k lmd mu)) = 2\<close> show ?thesis
        by (simp add: find_srg_optimal [where optimize = optimize, OF nr] Let_def)
    next
      case False
      with \<open>Status (optimize (build_model n k lmd mu)) = 2\<close> show ?thesis
        by (simp add: find_srg_NetworkXError)
    qed
  qed
qed

text \<open>Claim C2 as amended, at \<open>lmd = -1\<close> and at \<open>n = -3\<close>.\<close>

theorem no_parameter_validation_witness:
  "take 2 (trace (find_srg (answer 2 (edge_assignment [])) (0, 1) 2 0 (- 1) 0))
     = [Print Start_optimizing_model, Optimize (build_model 2 0 (- 1) 0)] \<and>
   completion (find_srg (answer 2 (edge_assignment [])) (0, 1) 2 0 (- 1) 0) = Returns PyNone \<and>
   completion (find_srg (answer 2 (edge_assignment [])) (0, 1) (- 3) 0 0 0) = Raises NetworkXError"
  using no_parameter_validation [of 0 "- 1" 0 "answer 2 (edge_assignment [])" "(0, 1)" 2]
    no_parameter_validation [of 0 0 0 "answer 2 (edge_assignment [])" "(0, 1)" "- 3"]
  by (simp add: exact_double_def answer_def)

text \<open>
  Claim C3, a run that contradicts it. \<open>(5, 3, 2, 3)\<close> fails the identity
  \<open>k * (k - 1 - lmd) = (n - k - 1) * mu\<close>, and the solver is invoked on the model all the
  same, before anything is reported.
\<close>

theorem identity_failure_is_searched:
  "find_srg (answer 3 (edge_assignment [])) (0, 1) 5 3 2 3 =
     \<lparr>trace = [Print Start_optimizing_model, Optimize (build_model 5 3 2 3),
               Print (Finished_optimizing_in 1), Print Model_has_no_solution],
      completion = Returns PyNone\<rparr> \<and>
   (3::int) * (3 - 1 - 2) \<noteq> (5 - 3 - 1) * 3"
  by (simp add: find_srg_not_optimal exact_not_raises exact_double_def answer_def)

text \<open>
  Claim C3 as amended. For \<open>n \<ge> 1\<close>, \<open>k\<close>, \<open>lmd\<close>, \<open>mu\<close> of magnitude at most \<open>2 ^ 53\<close> and
  parameters that fail the identity, the model has no solution; \<open>find_srg\<close> hands it to
  the solver nevertheless (it has no check of the identity), and, provided the solver
  ends with status 2 only with values that solve the model, prints
  \<open>Model has no solution\<close> and returns \<open>None\<close>.
\<close>

theorem identity_failure_reported_after_search:
  assumes "k * (k - 1 - lmd) \<noteq> (n - k - 1) * mu" and "1 \<le> n"
    and "exact_double k" and "exact_double lmd" and "exact_double mu"
    and "Status (optimize (build_model n k lmd mu)) = 2 \<longrightarrow>
           feasible (build_model n k lmd mu) (X (optimize (build_model n k lmd mu)))"
  shows "(\<forall>a. \<not> feasible (build_model n k lmd mu) a) \<and>
         find_srg optimize clock n k lmd mu =
           \<lparr>trace = [Print Start_optimizing_model, Optimize (build_model n k lmd mu),
                     Print (Finished_optimizing_in (snd clock - fst clock)),
                     Print Model_has_no_solution],
            completion = Returns PyNone\<rparr>"
proof -
  have inf: "\<not> feasible (build_model n k lmd mu) a" for a
    using assms(1,2) feasible_identity [of n k lmd mu a] by blast
  with assms(6) have "Status (optimize (build_model n k lmd mu)) \<noteq> 2"
    by blast
  moreover have "\<not> model_raises n k lmd mu"
    using assms(3-5) by (rule exact_not_raises)
  ultimately show ?thesis
    using inf by (simp add: find_srg_not_optimal)
qed

text \<open>Claim C3 as amended, at \<open>(5, 3, 2, 3)\<close> and a solver that ends with status 3.\<close>

theorem identity_failure_reported_after_search_witness:
  "(\<forall>a. \<not> feasible (build_model 5 3 2 3) a) \<and>
   Optimize (build_model 5 3 2 3) \<in> set (trace (find_srg (answer 3 (edge_assignment [])) (0, 1) 5 3 2 3)) \<and>
   Print Model_has_no_solution \<in> set (trace (find_srg (answer 3 (edge_assignment [])) (0, 1) 5 3 2 3))"
  using identity_failure_reported_after_search
          [of 3 2 5 3 "answer 3 (edge_assignment [])" "(0, 1)"]
  by (simp add: answer_def exact_double_def)

text \<open>
  Claim C4, a run that contradicts it. The solver stops on the Petersen parameters with
  status 9 (time limit): the run prints \<open>Model has no solution\<close>, the report of an
  infeasible model, and returns \<open>None\<close>, although the Petersen graph is a strongly
  regular graph with these parameters.
\<close>

theorem time_limit_reported_as_no_solution:
  "find_srg (answer 9 (edge_assignment [])) (0, 1) 10 3 0 1 =
     \<lparr>trace = [Print Start_optimizing_model, Optimize (build_model 10 3 0 1),
               Print (Finished_optimizing_in 1), Print Model_has_no_solution],
      completion = Returns PyNone\<rparr> \<and>
   is_srg 10 3 0 1 (set petersen)"
  using petersen_srg
  by (simp add: find_srg_not_optimal exact_not_raises exact_double_def answer_def)

text \<open>
  Claim C4 as amended. For \<open>n \<ge> 0\<close> and \<open>k\<close>, \<open>lmd\<close>, \<open>mu\<close> of magnitude at most \<open>2 ^ 53\<close>,
  a call returns \<open>None\<close> and prints exactly one of two reports: \<open>Model has no solution\<close>
  when the solver's status is not 2, whatever made the solver stop, and
  \<open>Found c solution E\<close> when it is 2, where \<open>E\<close> is the edge list read from the solver
  and \<open>c\<close> the verdict of the verification pass, which may be \<open>False\<close>.
\<close>

theorem two_reports_no_unknown:
  assumes "0 \<le> n" and "exact_double k" and "exact_double lmd" and "exact_double mu"
  shows "completion (find_srg optimize clock n k lmd mu) = Returns PyNone \<and>
   (Print Model_has_no_solution \<in> set (trace (find_srg optimize clock n k lmd mu))
      \<longleftrightarrow> Status (optimize (build_model n k lmd mu)) \<noteq> 2) \<and>
   (\<forall>c E. Print (Found_solution c E) \<in> set (trace (find_srg optimize clock n k lmd mu))
      \<longleftrightarrow> Status (optimize (build_model n k lmd mu)) = 2 \<and>
          E = extract_edges n (X (optimize (build_model n k lmd mu))) \<and>
          c = accepted (verify n k lmd mu (X (optimize (build_model n k lmd mu))) E))"
proof -
  have nr: "\<not> model_raises n k lmd mu"
    using assms(2-4) by (rule exact_not_raises)
  show ?thesis
  proof (cases "Status (optimize (build_model n k lmd mu)) = 2")
    case True
    then show ?thesis
      using assms(1) accepted_verify [of n k lmd mu "X (optimize (build_model n k lmd mu))"]
      by (auto simp: find_srg_optimal [where optimize = optimize, OF nr] Let_def)
  next
    case False
    then show ?thesis
      by (auto simp: find_srg_not_optimal [where optimize = optimize, OF nr])
  qed
qed

text \<open>Claim C4 as amended, at a run of each kind.\<close>

theorem two_reports_no_unknown_witness:
  "Print Model_has_no_solution \<in> set (trace (find_srg (answer 9 (edge_assignment [])) (0, 1) 10 3 0 1)) \<and>
   Print (Found_solution True pentagon)
     \<in> set (trace (find_srg (answer 2 (edge_assignment pentagon)) (0, 1) 5 2 0 1))"
proof -
  have "accepted (verify 5 2 0 1 (edge_assignment pentagon) pentagon)"
    by code_simp
  then show ?thesis
    using two_reports_no_unknown [of 10 3 0 1 "answer 9 (edge_assignment [])" "(0, 1)"]
      two_reports_no_unknown [of 5 2 0 1 "answer 2 (edge_assignment pentagon)" "(0, 1)"]
    by (simp add: answer_def pentagon_edges exact_double_def)
qed

text \<open>
  Claim C5, a run that contradicts it. The solver claims the empty graph on two vertices
  as a solution for \<open>(2, 1, 0, 0)\<close>; the verification pass rejects it, and the run
  prints \<open>Found False solution []\<close> with the adjacency matrix and returns \<open>None\<close>: no
  error is raised.
\<close>

theorem rejected_solution_returns_normally:
  "find_srg (answer 2 (edge_assignment [])) (0, 1) 2 1 0 0 =
     \<lparr>trace = [Print Start_optimizing_model, Optimize (build_model 2 1 0 0),
               Print (Finished_optimizing_in 1), Print (Found_solution False []),
               Print Adjacency_matrix, Print (Matrix [ [0, 0], [0, 0] ])],
      completion = Returns PyNone\<rparr>"
  by code_simp

text \<open>
  Claim C5 as amended. When the solver ends with status 2 and the edge list \<open>E\<close> read
  from it is not a strongly regular graph with the requested parameters (\<open>k\<close>, \<open>lmd\<close>,
  \<open>mu\<close> of magnitude at most \<open>2 ^ 53\<close>), \<open>find_srg\<close> prints \<open>Found False solution E\<close>,
  then \<open>Adjacency matrix:\<close> and the adjacency matrix of \<open>E\<close>, does not print
  \<open>Model has no solution\<close>, and returns \<open>None\<close>.
\<close>

theorem verifier_disagreement_is_printed:
  assumes "Status (optimize (build_model n k lmd mu)) = 2"
    and "\<not> is_srg n k lmd mu (set (extract_edges n (X (optimize (build_model n k lmd mu)))))"
    and "exact_double k" and "exact_double lmd" and "exact_double mu"
  shows "find_srg optimize clock n k lmd mu =
           \<lparr>trace = [Print Start_optimizing_model, Optimize (build_model n k lmd mu),
                     Print (Finished_optimizing_in (snd clock - fst clock)),
                     Print (Found_solution False (extract_edges n (X (optimize (build_model n k lmd mu))))),
                     Print Adjacency_matrix,
                     Print (Matrix (to_numpy_matrix
                       (add_edges_from (no_edges n) (extract_edges n (X (optimize (build_model n k lmd mu)))))))],
            completion = Returns PyNone\<rparr> \<and>
         Print Model_has_no_solution \<notin> set (trace (find_srg optimize clock n k lmd mu))"
proof -
  have nr: "\<not> model_raises n k lmd mu"
    using assms(3-5) by (rule exact_not_raises)
  have n: "0 \<le> n"
    using assms(2) is_srg_no_vertex [of n k lmd mu] by (cases "0 \<le> n") auto
  show ?thesis
    using assms(1,2) by (simp add: find_srg_optimal [where optimize = optimize, OF nr n] Let_def)
qed

text \<open>Claim C5 as amended, at the run above.\<close>

theorem verifier_disagreement_is_printed_witness:
  "\<not> is_srg 2 1 0 0 (set []) \<and>
   find_srg (answer 2 (edge_assignment [])) (0, 1) 2 1 0 0 =
     \<lparr>trace = [Print Start_optimizing_model, Optimize (build_model 2 1 0 0),
               Print (Finished_optimizing_in 1), Print (Found_solution False []),
               Print Adjacency_matrix,
               Print (Matrix (to_numpy_matrix (add_edges_from (no_edges 2) [])))],
      completion = Returns PyNone\<rparr>"
proof -
  have e: "extract_edges 2 (edge_assignment []) = []"
    by code_simp
  have n: "\<not> is_srg 2 1 0 0 (set [])"
    by code_simp
  with verifier_disagreement_is_printed [of "answer 2 (edge_assignment [])" 2 1 0 0 "(0, 1)"]
  show ?thesis
    by (simp add: answer_def e exact_double_def)
qed



text \<open>
  Claim C8. The verification pass depends on the solver's values only through the edge
  list: run a second time on the 0/1 assignment of the witness \<open>E\<close>, it reads the same
  edge list and yields the same verdict and the same graph.
\<close>

theorem verifier_rerun_on_witness:
  "extract_edges n (edge_assignment (extract_edges n xs)) = extract_edges n xs \<and>
   verify n k lmd mu (edge_assignment (extract_edges n xs)) (extract_edges n xs)
     = verify n k lmd mu xs (extract_edges n xs)"
  by (simp only: extract_edges_edge_assignment verify_edge_assignment)

text \<open>
  Claim C9. For \<open>n \<ge> 2\<close>, \<open>0 \<le> lmd \<le> n\<close> and \<open>0 \<le> mu \<le> n\<close>, a 0/1 assignment of the
  \<open>x\<close> variables extends to a solution of the model of \<open>find_srg\<close> if and only if the
  pairs with \<open>x = 1\<close> are the edges of a strongly regular graph with parameters
  \<open>(n, k, lmd, mu)\<close>. With \<open>BigM = n\<close>, the two \<open>lmd\<close> constraints of a pair hold for
  every 0/1 assignment with \<open>x = 0\<close> at the pair, and the two \<open>mu\<close> constraints for
  every one with \<open>x = 1\<close>.
\<close>

theorem model_feasible_iff_srg:
  assumes n: "2 \<le> n" and bounds: "0 \<le> lmd" "lmd \<le> n" "0 \<le> mu" "mu \<le> n"
    and bx: "\<forall>e \<in> set (combinations2 (range_py n)). ax e = 0 \<or> ax e = 1"
  shows "((\<exists>a. (\<forall>e \<in> set (combinations2 (range_py n)). a (x_var e) = ax e) \<and>
              feasible (build_model n k lmd mu) a)
            \<longleftrightarrow> is_srg n k lmd mu {e \<in> set (combinations2 (range_py n)). ax e = 1}) \<and>
         (\<forall>a. list_all (binary a) (bin_vars (build_model n k lmd mu)) \<longrightarrow>
            (\<forall>e \<in> set (combinations2 (range_py n)).
               (a (x_var e) = 0 \<longrightarrow> holds a (lambda_upper_constr n lmd (of_int n) e) \<and>
                                       holds a (lambda_lower_constr n lmd (of_int n) e)) \<and>
               (a (x_var e) = 1 \<longrightarrow> holds a (mu_upper_constr n mu (of_int n) e) \<and>
                                       holds a (mu_lower_constr n mu (of_int n) e))))"
proof (intro conjI allI impI ballI)
  show "(\<exists>a. (\<forall>e \<in> set (combinations2 (range_py n)). a (x_var e) = ax e) \<and>
              feasible (build_model n k lmd mu) a)
            \<longleftrightarrow> is_srg n k lmd mu {e \<in> set (combinations2 (range_py n)). ax e = 1}"
  proof
    assume "\<exists>a. (\<forall>e \<in> set (combinations2 (range_py n)). a (x_var e) = ax e) \<and>
              feasible (build_model n k lmd mu) a"
    then obtain a where ext: "\<forall>e \<in> set (combinations2 (range_py n)). a (x_var e) = ax e"
      and feas: "feasible (build_model n k lmd mu) a" by blast
    from ext have "\<forall>e \<in> set (combinations2 (range_py n)). (a (x_var e) = 1) = (ax e = 1)"
      by simp
    then have "srg_counts n k lmd mu (\<lambda>e. a (x_var e) = 1) = srg_counts n k lmd mu (\<lambda>e. ax e = 1)"
      by (rule srg_counts_cong)
    with feasible_imp_srg_counts [OF feas] have "is_srg n k lmd mu (edge_set n (\<lambda>e. ax e = 1))"
      by (simp only: is_srg_edge_set)
    then show "is_srg n k lmd mu {e \<in> set (combinations2 (range_py n)). ax e = 1}"
      by (simp only: edge_set_def)
  next
    assume "is_srg n k lmd mu {e \<in> set (combinations2 (range_py n)). ax e = 1}"
    then have "srg_counts n k lmd mu (\<lambda>e. ax e = 1)"
      by (simp only: edge_set_def [symmetric] is_srg_edge_set)
    then have "feasible (build_model n k lmd mu) (y_completion ax)"
      by (rule srg_counts_imp_feasible [OF bounds bx])
    moreover have "\<forall>e \<in> set (combinations2 (range_py n)). y_completion ax (x_var e) = ax e"
      by simp
    ultimately show "\<exists>a. (\<forall>e \<in> set (combinations2 (range_py n)). a (x_var e) = ax e) \<and>
              feasible (build_model n k lmd mu) a"
      by blast
  qed
next
  fix a e
  assume bin: "list_all (binary a) (bin_vars (build_model n k lmd mu))"
    and e: "e \<in> set (combinations2 (range_py n))"
  obtain u v where uv: "e = (u, v)" by (cases e)
  from e uv have lt: "int u < n" "int v < n"
    by (auto simp: set_combinations2_range)
  from bin have "\<forall>t \<in> set (product3 (range_py n) (range_py n) (range_py n)). binary a (y_var t)"
    by (simp add: bin_vars_build_model list_all_iff)
  then have S: "0 \<le> eval_lin a (codegree_sum n u v)" "eval_lin a (codegree_sum n u v) \<le> of_int n"
    using codegree_sum_bounds [OF _ lt] by blast+
  have r: "real_of_int 0 \<le> of_int lmd" "real_of_int lmd \<le> of_int n"
    "real_of_int 0 \<le> of_int mu" "real_of_int mu \<le> of_int n"
    using bounds by (simp_all only: of_int_le_iff)
  {
    assume "a (x_var e) = 0"
    with S r show "holds a (lambda_upper_constr n lmd (of_int n) e)"
      and "holds a (lambda_lower_constr n lmd (of_int n) e)"
      unfolding uv holds_codegree_constrs by simp_all
  }
  {
    assume "a (x_var e) = 1"
    with S r show "holds a (mu_upper_constr n mu (of_int n) e)"
      and "holds a (mu_lower_constr n mu (of_int n) e)"
      unfolding uv holds_codegree_constrs by simp_all
  }
qed

text \<open>Claim C9 at the pentagon.\<close>

theorem model_feasible_iff_srg_witness:
  "feasible (build_model 5 2 0 1) (edge_assignment pentagon) \<and>
   is_srg 5 2 0 1 {e \<in> set (combinations2 (range_py 5)). edge_assignment pentagon (x_var e) = 1} \<and>
   holds (edge_assignment pentagon) (lambda_upper_constr 5 0 5 (0, 2)) \<and>
   holds (edge_assignment pentagon) (mu_lower_constr 5 1 5 (0, 1))"
proof -
  have bx: "\<forall>e \<in> set (combinations2 (range_py 5)).
              edge_assignment pentagon (x_var e) = 0 \<or> edge_assignment pentagon (x_var e) = 1"
    by (simp add: edge_assignment_x)
  have bin: "list_all (binary (edge_assignment pentagon)) (bin_vars (build_model 5 2 0 1))"
    using pentagon_feasible by (simp add: feasible_def)
  have e: "(0, 2) \<in> set (combinations2 (range_py 5))" "(0, 1) \<in> set (combinations2 (range_py 5))"
    by (simp_all add: set_combinations2_range)
  have v: "edge_assignment pentagon (x_var (0, 2)) = 0" "edge_assignment pentagon (x_var (0, 1)) = 1"
    by (simp_all add: edge_assignment_x pentagon_def)
  note inst = model_feasible_iff_srg [of 5 0 1 "\<lambda>e. edge_assignment pentagon (x_var e)" 2, OF _ _ _ _ _ bx]
  have "\<exists>a. (\<forall>e \<in> set (combinations2 (range_py 5)). a (x_var e) = edge_assignment pentagon (x_var e)) \<and>
        feasible (build_model 5 2 0 1) a"
    using pentagon_feasible by blast
  then have srg: "is_srg 5 2 0 1 {e \<in> set (combinations2 (range_py 5)). edge_assignment pentagon (x_var e) = 1}"
    using inst by simp
  have c2: "\<forall>e \<in> set (combinations2 (range_py 5)).
               (edge_assignment pentagon (x_var e) = 0 \<longrightarrow>
                  holds (edge_assignment pentagon) (lambda_upper_constr 5 0 (of_int 5) e) \<and>
                  holds (edge_assignment pentagon) (lambda_lower_constr 5 0 (of_int 5) e)) \<and>
               (edge_assignment pentagon (x_var e) = 1 \<longrightarrow>
                  holds (edge_assignment pentagon) (mu_upper_constr 5 1 (of_int 5) e) \<and>
                  holds (edge_assignment pentagon) (mu_lower_constr 5 1 (of_int 5) e))"
    using inst bin by simp
  from c2 e v have "holds (edge_assignment pentagon) (lambda_upper_constr 5 0 (of_int 5) (0, 2))"
    "holds (edge_assignment pentagon) (mu_lower_constr 5 1 (of_int 5) (0, 1))"
    by blast+
  with srg pentagon_feasible show ?thesis by simp
qed

text \<open>
  Claim C10, a run that contradicts it. With \<open>n = -1\<close> the model is empty; when the
  solver ends with status 2, line 82 raises \<open>NetworkXError\<close> after the two lines about
  optimizing: the call returns no value.
\<close>

theorem negative_n_raises:
  "find_srg (answer 2 (edge_assignment [])) (0, 1) (- 1) 3 0 1 =
     \<lparr>trace = [Print Start_optimizing_model, Optimize (build_model (- 1) 3 0 1),
               Print (Finished_optimizing_in 1)],
      completion = Raises NetworkXError\<rparr>"
  by (simp add: find_srg_NetworkXError answer_def)

text \<open>
  Claim C10 as amended. For \<open>n \<ge> 0\<close> and \<open>k\<close>, \<open>lmd\<close>, \<open>mu\<close> of magnitude at most
  \<open>2 ^ 53\<close>, \<open>find_srg\<close> returns \<open>None\<close> on both exits. The edge list, the verdict and
  the adjacency matrix appear in what is printed, never in the value returned.
\<close>

theorem find_srg_returns_None:
  assumes "0 \<le> n" and "exact_double k" and "exact_double lmd" and "exact_double mu"
  shows "completion (find_srg optimize clock n k lmd mu) = Returns PyNone \<and>
   trace (find_srg optimize clock n k lmd mu) =
     (let m = build_model n k lmd mu; xs = X (optimize m); E = extract_edges n xs
      in [Print Start_optimizing_model, Optimize m,
          Print (Finished_optimizing_in (snd clock - fst clock))] @
         (if Status (optimize m) \<noteq> 2 then [Print Model_has_no_solution]
          else [Print (Found_solution (accepted (verify n k lmd mu xs E)) E),
                Print Adjacency_matrix,
                Print (Matrix (to_numpy_matrix (add_edges_from (no_edges n) E)))]))"
proof -
  have nr: "\<not> model_raises n k lmd mu"
    using assms(2-4) by (rule exact_not_raises)
  show ?thesis
  proof (cases "Status (optimize (build_model n k lmd mu)) = 2")
    case True
    then show ?thesis
      using assms(1) accepted_verify [of n k lmd mu "X (optimize (build_model n k lmd mu))"]
      by (simp add: find_srg_optimal [where optimize = optimize, OF nr] Let_def)
  next
    case False
    then show ?thesis
      by (simp add: find_srg_not_optimal [where optimize = optimize, OF nr] Let_def)
  qed
qed

text \<open>Claim C10 as amended, at a run of each exit.\<close>

theorem find_srg_returns_None_witness:
  "completion (find_srg (answer 2 (edge_assignment pentagon)) (0, 1) 5 2 0 1) = Returns PyNone \<and>
   completion (find_srg (answer 3 (edge_assignment [])) (0, 1) 5 3 2 3) = Returns PyNone"
  using find_srg_returns_None [of 5 2 0 1 "answer 2 (edge_assignment pentagon)" "(0, 1)"]
    find_srg_returns_None [of 5 3 2 3 "answer 3 (edge_assignment [])" "(0, 1)"]
  by (simp add: exact_double_def)

end
